theory Spec2Isabelle
  imports Main "HOL-Library.Word"
begin

unbundle bit_operations_syntax

section \<open>Data model\<close>

text \<open>
  The codec of \<^verbatim>\<open>U8Encoder.py\<close> (module-level functions) and of \<^verbatim>\<open>u8_encode.py\<close>
  (static methods of the class \<^verbatim>\<open>U8Encoder\<close>) works on Python objects. An item of a record
  is an \<^verbatim>\<open>int\<close>, a \<^verbatim>\<open>bool\<close> (a subclass of \<^verbatim>\<open>int\<close>, so \<^verbatim>\<open>isinstance(item, int)\<close> holds),
  a \<^verbatim>\<open>float\<close>, a \<^verbatim>\<open>str\<close> or anything else. Python integers are unbounded: \<open>int\<close>.
  A float is an IEEE-754 double and is identified with its 64-bit pattern, which is what
  \<^verbatim>\<open>struct.pack(">d", x)\<close> writes and \<^verbatim>\<open>struct.unpack(">d", b)\<close> reads back; no floating-point
  arithmetic happens in the codec. A \<^verbatim>\<open>str\<close> is the list of its code points (\<^verbatim>\<open>ord\<close> of
  each character). \<open>PNone\<close> stands for every object of another type.
\<close>

datatype pyval =
    PInt int
  | PBool bool
  | PFloat "64 word"
  | PStr "int list"
  | PNone

text \<open>
  Every \<^verbatim>\<open>raise\<close> of the source and every exception of a library call it makes is a
  constructor. All but \<open>StructError\<close>, \<open>IndexError\<close> and the two Unicode errors are
  \<^verbatim>\<open>ValueError\<close> in Python, told apart here by the place that raises them.
\<close>

datatype error =
    UnsupportedDataType          \<comment> \<open>\<^verbatim>\<open>encode_hint\<close>: \<^verbatim>\<open>data_type not in type_map\<close>\<close>
  | DataBitsOutOfRange           \<comment> \<open>\<^verbatim>\<open>encode_hint\<close>: \<^verbatim>\<open>not (0 <= data_bits <= 63)\<close>\<close>
  | UnknownTypeCode int          \<comment> \<open>\<^verbatim>\<open>decode_hint\<close>: type code not in \<^verbatim>\<open>type_map\<close>\<close>
  | UnsupportedItemType          \<comment> \<open>\<^verbatim>\<open>encode_item\<close>: the final \<^verbatim>\<open>else\<close>\<close>
  | UnknownItemType              \<comment> \<open>\<^verbatim>\<open>decode_item\<close>: the final \<^verbatim>\<open>else\<close>\<close>
  | RecordTooLong nat            \<comment> \<open>\<^verbatim>\<open>encode_record\<close>: more than 256 bytes\<close>
  | BadRecordLength nat          \<comment> \<open>\<^verbatim>\<open>decode_record\<close>: length is not 256\<close>
  | BytesOutOfRange              \<comment> \<open>\<^verbatim>\<open>bytes(xs)\<close> with an element outside \<^verbatim>\<open>range(256)\<close>\<close>
  | StructError                  \<comment> \<open>\<^verbatim>\<open>struct.error\<close> of \<^verbatim>\<open>struct.pack\<close> and \<^verbatim>\<open>struct.unpack\<close>\<close>
  | UnicodeEncodeError           \<comment> \<open>\<^verbatim>\<open>str.encode("utf-8")\<close>\<close>
  | UnicodeDecodeError           \<comment> \<open>\<^verbatim>\<open>bytes.decode("utf-8")\<close>\<close>
  | IndexError                   \<comment> \<open>list or frame index out of range\<close>
  | ColumnsMismatch nat nat      \<comment> \<open>\<^verbatim>\<open>pd.DataFrame(data, columns=...)\<close>: the \<^verbatim>\<open>ValueError\<close>
                                     "N columns passed, passed data had M columns"\<close>

section \<open>Python list access\<close>

text \<open>
  \<^verbatim>\<open>xs[i]\<close> raises \<^verbatim>\<open>IndexError\<close> out of range and counts a negative index from the end;
  the slice \<^verbatim>\<open>xs[lo:hi]\<close> never raises: both bounds are clamped to the list.
\<close>

definition py_index :: "'a list \<Rightarrow> int \<Rightarrow> error + 'a" where
  "py_index xs i =
     (if 0 \<le> i \<and> i < int (length xs) then Inr (xs ! nat i)
      else if i < 0 \<and> - int (length xs) \<le> i then Inr (xs ! nat (int (length xs) + i))
      else Inl IndexError)"

definition py_clamp :: "nat \<Rightarrow> int \<Rightarrow> nat" where
  "py_clamp n k = (if k < 0 then nat (max (int n + k) 0) else min (nat k) n)"

definition py_slice :: "'a list \<Rightarrow> int \<Rightarrow> int \<Rightarrow> 'a list" where
  "py_slice xs lo hi =
     (let a = py_clamp (length xs) lo; b = py_clamp (length xs) hi
      in take (b - a) (drop a xs))"

section \<open>The hint byte\<close>

definition type_map_enc :: "string \<rightharpoonup> int" where
  "type_map_enc = map_of [(''int'', 1), (''float'', 2), (''str'', 3)]"

definition type_map_dec :: "int \<rightharpoonup> string" where
  "type_map_dec = map_of [(1, ''int''), (2, ''float''), (3, ''str'')]"

definition encode_hint :: "string \<Rightarrow> int \<Rightarrow> error + int" where
  "encode_hint data_type data_bits =
     (case type_map_enc data_type of
        None \<Rightarrow> Inl UnsupportedDataType
      | Some t \<Rightarrow>
          if \<not> (0 \<le> data_bits \<and> data_bits \<le> 63) then Inl DataBitsOutOfRange
          else Inr (push_bit 6 t OR data_bits))"

definition decode_hint :: "int \<Rightarrow> error + (string \<times> int)" where
  "decode_hint encoded_value =
     (let data_type = drop_bit 6 encoded_value AND 3;
          data_bits = encoded_value AND 63
      in case type_map_dec data_type of
           None \<Rightarrow> Inl (UnknownTypeCode data_type)
         | Some name \<Rightarrow> Inr (name, data_bits))"

section \<open>Library calls: \<^verbatim>\<open>struct\<close>, \<^verbatim>\<open>bytes\<close> and the UTF-8 codec\<close>

text \<open>
  \<^verbatim>\<open>struct.pack(">Q", n)\<close> writes the 8 bytes of \<open>n\<close>, most significant first, and raises
  \<^verbatim>\<open>struct.error\<close> unless \<open>0 \<le> n < 2 ^ 64\<close>. \<^verbatim>\<open>struct.pack(">d", x)\<close> writes the 8 bytes of
  the double's bit pattern and never fails on a float. \<^verbatim>\<open>struct.pack(">Ns", b)\<close> writes
  exactly \<open>N\<close> bytes: \<open>b\<close> truncated or padded with zero bytes.
\<close>

fun be_bytes :: "nat \<Rightarrow> int \<Rightarrow> int list" where
  "be_bytes 0 n = []"
| "be_bytes (Suc k) n = be_bytes k (n div 256) @ [n mod 256]"

definition be_int :: "int list \<Rightarrow> int" where
  "be_int bs = foldl (\<lambda>a b. a * 256 + b) 0 bs"

definition struct_pack_Q :: "int \<Rightarrow> error + int list" where
  "struct_pack_Q n = (if 0 \<le> n \<and> n < 2 ^ 64 then Inr (be_bytes 8 n) else Inl StructError)"

definition struct_pack_d :: "64 word \<Rightarrow> int list" where
  "struct_pack_d x = be_bytes 8 (uint x)"

definition struct_pack_s :: "nat \<Rightarrow> int list \<Rightarrow> int list" where
  "struct_pack_s n bs = take n bs @ replicate (n - length bs) 0"

text \<open>
  \<^verbatim>\<open>bytes(xs)\<close> of a list of integers raises \<^verbatim>\<open>ValueError\<close> unless every element is in
  \<^verbatim>\<open>range(256)\<close>. \<^verbatim>\<open>struct.unpack\<close> raises \<^verbatim>\<open>struct.error\<close> unless the buffer has exactly
  the size of the format: 8 for \<^verbatim>\<open>">Q"\<close> and \<^verbatim>\<open>">d"\<close>, \<open>N\<close> for \<^verbatim>\<open>">Ns"\<close> (a negative \<open>N\<close>
  is no format at all).
\<close>

definition py_bytes :: "int list \<Rightarrow> error + int list" where
  "py_bytes xs = (if list_all (\<lambda>b. 0 \<le> b \<and> b < 256) xs then Inr xs else Inl BytesOutOfRange)"

definition struct_unpack_Q :: "int list \<Rightarrow> error + int" where
  "struct_unpack_Q bs = (if length bs = 8 then Inr (be_int bs) else Inl StructError)"

definition struct_unpack_d :: "int list \<Rightarrow> error + 64 word" where
  "struct_unpack_d bs = (if length bs = 8 then Inr (word_of_int (be_int bs)) else Inl StructError)"

definition struct_unpack_s :: "int \<Rightarrow> int list \<Rightarrow> error + int list" where
  "struct_unpack_s n bs = (if int (length bs) = n then Inr bs else Inl StructError)"

text \<open>
  \<^verbatim>\<open>s.encode("utf-8")\<close>: one to four bytes per code point; a surrogate (\<open>0xD800\<close> to
  \<open>0xDFFF\<close>) raises \<^verbatim>\<open>UnicodeEncodeError\<close>. An integer outside \<open>0 .. 0x10FFFF\<close> is not
  a code point of any \<^verbatim>\<open>str\<close>; the model rejects it with the same error.
\<close>

definition utf8_encode_cp :: "int \<Rightarrow> error + int list" where
  "utf8_encode_cp c =
     (if c < 0 then Inl UnicodeEncodeError
      else if c < 0x80 then Inr [c]
      else if c < 0x800 then Inr [0xC0 + c div 64, 0x80 + c mod 64]
      else if c < 0x10000 then
        (if 0xD800 \<le> c \<and> c \<le> 0xDFFF then Inl UnicodeEncodeError
         else Inr [0xE0 + c div 4096, 0x80 + c div 64 mod 64, 0x80 + c mod 64])
      else if c < 0x110000 then
        Inr [0xF0 + c div 262144, 0x80 + c div 4096 mod 64, 0x80 + c div 64 mod 64,
             0x80 + c mod 64]
      else Inl UnicodeEncodeError)"

fun utf8_encode :: "int list \<Rightarrow> error + int list" where
  "utf8_encode [] = Inr []"
| "utf8_encode (c # cs) =
     (case utf8_encode_cp c of
        Inl e \<Rightarrow> Inl e
      | Inr bs \<Rightarrow> (case utf8_encode cs of Inl e \<Rightarrow> Inl e | Inr rest \<Rightarrow> Inr (bs @ rest)))"

text \<open>
  \<^verbatim>\<open>b.decode("utf-8")\<close> is strict: a lead byte announces the length of the sequence, every
  following byte must be a continuation byte (\<open>0x80\<close> to \<open>0xBF\<close>), and an overlong form, a
  surrogate or a value above \<open>0x10FFFF\<close> raises \<^verbatim>\<open>UnicodeDecodeError\<close>, as a truncated
  sequence does.
\<close>

definition is_cont :: "int \<Rightarrow> bool" where
  "is_cont b = (0x80 \<le> b \<and> b \<le> 0xBF)"

definition utf8_cons :: "int \<Rightarrow> error + int list \<Rightarrow> error + int list" where
  "utf8_cons c r = (case r of Inl e \<Rightarrow> Inl e | Inr cs \<Rightarrow> Inr (c # cs))"

fun utf8_decode :: "int list \<Rightarrow> error + int list" where
  "utf8_decode [] = Inr []"
| "utf8_decode (b0 # bs) =
     (if 0 \<le> b0 \<and> b0 < 0x80 then utf8_cons b0 (utf8_decode bs)
      else if 0xC2 \<le> b0 \<and> b0 \<le> 0xDF then
        (case bs of
           b1 # r \<Rightarrow>
             if is_cont b1 then utf8_cons ((b0 - 0xC0) * 64 + (b1 - 0x80)) (utf8_decode r)
             else Inl UnicodeDecodeError
         | _ \<Rightarrow> Inl UnicodeDecodeError)
      else if 0xE0 \<le> b0 \<and> b0 \<le> 0xEF then
        (case bs of
           b1 # b2 # r \<Rightarrow>
             (let c = (b0 - 0xE0) * 4096 + (b1 - 0x80) * 64 + (b2 - 0x80)
              in if is_cont b1 \<and> is_cont b2 \<and> 0x800 \<le> c \<and> \<not> (0xD800 \<le> c \<and> c \<le> 0xDFFF)
                 then utf8_cons c (utf8_decode r)
                 else Inl UnicodeDecodeError)
         | _ \<Rightarrow> Inl UnicodeDecodeError)
      else if 0xF0 \<le> b0 \<and> b0 \<le> 0xF4 then
        (case bs of
           b1 # b2 # b3 # r \<Rightarrow>
             (let c = (b0 - 0xF0) * 262144 + (b1 - 0x80) * 4096 + (b2 - 0x80) * 64 + (b3 - 0x80)
              in if is_cont b1 \<and> is_cont b2 \<and> is_cont b3 \<and> 0x10000 \<le> c \<and> c \<le> 0x10FFFF
                 then utf8_cons c (utf8_decode r)
                 else Inl UnicodeDecodeError)
         | _ \<Rightarrow> Inl UnicodeDecodeError)
      else Inl UnicodeDecodeError)"

section \<open>Items (\<^verbatim>\<open>U8Encoder.py\<close>)\<close>

fun encode_item :: "pyval \<Rightarrow> error + int list" where
  "encode_item (PInt n) =
     (case encode_hint ''int'' 8 of
        Inl e \<Rightarrow> Inl e
      | Inr h \<Rightarrow> (case struct_pack_Q n of Inl e \<Rightarrow> Inl e | Inr p \<Rightarrow> Inr (h # p)))"
| "encode_item (PBool b) =
     (case encode_hint ''int'' 8 of
        Inl e \<Rightarrow> Inl e
      | Inr h \<Rightarrow> (case struct_pack_Q (of_bool b) of Inl e \<Rightarrow> Inl e | Inr p \<Rightarrow> Inr (h # p)))"
| "encode_item (PFloat x) =
     (case encode_hint ''float'' 8 of
        Inl e \<Rightarrow> Inl e
      | Inr h \<Rightarrow> Inr (h # struct_pack_d x))"
| "encode_item (PStr s) =
     (case utf8_encode s of
        Inl e \<Rightarrow> Inl e
      | Inr encoded_bytes \<Rightarrow>
          (case encode_hint ''str'' (int (length encoded_bytes)) of
             Inl e \<Rightarrow> Inl e
           | Inr h \<Rightarrow> Inr (h # struct_pack_s (length encoded_bytes) encoded_bytes)))"
| "encode_item PNone = Inl UnsupportedItemType"

definition decode_item :: "string \<Rightarrow> int \<Rightarrow> int list \<Rightarrow> error + pyval" where
  "decode_item item_type item_len encoded_item =
     (if item_type = ''int'' then
        (case py_bytes encoded_item of
           Inl e \<Rightarrow> Inl e
         | Inr bs \<Rightarrow> (case struct_unpack_Q bs of Inl e \<Rightarrow> Inl e | Inr n \<Rightarrow> Inr (PInt n)))
      else if item_type = ''float'' then
        (case py_bytes encoded_item of
           Inl e \<Rightarrow> Inl e
         | Inr bs \<Rightarrow> (case struct_unpack_d bs of Inl e \<Rightarrow> Inl e | Inr x \<Rightarrow> Inr (PFloat x)))
      else if item_type = ''str'' then
        (case py_bytes encoded_item of
           Inl e \<Rightarrow> Inl e
         | Inr bs \<Rightarrow>
             (case struct_unpack_s item_len bs of
                Inl e \<Rightarrow> Inl e
              | Inr raw \<Rightarrow> (case utf8_decode raw of Inl e \<Rightarrow> Inl e | Inr s \<Rightarrow> Inr (PStr s))))
      else Inl UnknownItemType)"

section \<open>Records (\<^verbatim>\<open>U8Encoder.py\<close>)\<close>

text \<open>
  The \<^verbatim>\<open>for\<close> loop of \<^verbatim>\<open>encode_record\<close>, with \<^verbatim>\<open>encoded_items\<close> as the accumulator; the
  first item that fails to encode ends it.
\<close>

fun encode_items :: "pyval list \<Rightarrow> int list \<Rightarrow> error + int list" where
  "encode_items [] encoded_items = Inr encoded_items"
| "encode_items (item # record) encoded_items =
     (case encode_item item of
        Inl e \<Rightarrow> Inl e
      | Inr bs \<Rightarrow> encode_items record (encoded_items @ bs))"

definition encode_record :: "pyval list \<Rightarrow> error + int list" where
  "encode_record record =
     (case encode_items record [] of
        Inl e \<Rightarrow> Inl e
      | Inr encoded_items \<Rightarrow>
          if length encoded_items > 256 then Inl (RecordTooLong (length encoded_items))
          else Inr (encoded_items @ replicate (256 - length encoded_items) 0))"

text \<open>
  The \<^verbatim>\<open>while i < 256\<close> loop of \<^verbatim>\<open>decode_record\<close>. Its state is the offset \<open>i\<close> and the
  list \<^verbatim>\<open>decoded_items\<close>; it returns both, so that the offset at which the scan stopped can
  be stated. \<^verbatim>\<open>encoded_record[i]\<close> is a checked read, the payload is a slice.
\<close>

function decode_loop :: "int list \<Rightarrow> int \<Rightarrow> pyval list \<Rightarrow> error + (int \<times> pyval list)" where
  "decode_loop encoded_record i decoded_items =
     (if i < 256 then
        (case py_index encoded_record i of
           Inl e \<Rightarrow> Inl e
         | Inr b \<Rightarrow>
             if b = 0 then Inr (i, decoded_items)
             else
               (case decode_hint b of
                  Inl e \<Rightarrow> Inl e
                | Inr (item_type, item_len) \<Rightarrow>
                    (case decode_item item_type item_len
                            (py_slice encoded_record (i + 1) (i + 1 + item_len)) of
                       Inl e \<Rightarrow> Inl e
                     | Inr decoded_item \<Rightarrow>
                         decode_loop encoded_record (i + (item_len + 1))
                           (decoded_items @ [decoded_item]))))
      else Inr (i, decoded_items))"
  by pat_completeness auto
termination
proof -
  have nonneg: "- 1 < b AND 63" for b :: int
  proof -
    have "0 \<le> b AND 63" by simp
    then show ?thesis by linarith
  qed
  show ?thesis
    by (relation "measure (\<lambda>(r, i, d). nat (256 - i))")
       (auto simp: decode_hint_def Let_def nonneg split: option.splits)
qed

declare decode_loop.simps [simp del]

definition decode_record :: "int list \<Rightarrow> error + pyval list" where
  "decode_record encoded_record =
     (if length encoded_record \<noteq> 256 then Inl (BadRecordLength (length encoded_record))
      else
        (case decode_loop encoded_record 0 [] of
           Inl e \<Rightarrow> Inl e
         | Inr (i, decoded_items) \<Rightarrow> Inr decoded_items))"

section \<open>Tables (\<^verbatim>\<open>U8Encoder.py\<close>)\<close>

text \<open>
  pandas is outside the codec. A \<^verbatim>\<open>DataFrame\<close> handed to \<^verbatim>\<open>encode_database\<close> is its column
  labels (\<^verbatim>\<open>df.columns.tolist()\<close>) and its rows in order (\<^verbatim>\<open>df.iterrows()\<close>); an encoded
  frame is the list of its rows, each a list of integers; \<^verbatim>\<open>pd.DataFrame(encoded_data)\<close>,
  called on lists of integers with no column labels, never raises.
\<close>

record dataframe =
  df_columns :: "pyval list"
  df_rows :: "pyval list list"

text \<open>
  The frame that \<^verbatim>\<open>decode_database\<close> builds is the call of the constructor:
  \<^verbatim>\<open>pd.DataFrame(data)\<close> or \<^verbatim>\<open>pd.DataFrame(data, columns=header)\<close>, with \<open>data\<close> a list of
  lists. Without column labels the call never raises. With column labels and at least one
  row, pandas compares the number of labels with the width of the data, which is the
  length of the longest row (shorter rows are filled with missing values), and raises a
  \<^verbatim>\<open>ValueError\<close> when they differ; with no row it accepts any labels. A frame that is built
  is kept as the arguments it was built from: the cells that pandas fills or converts are
  not modelled.
\<close>

record new_frame =
  nf_data :: "pyval list list"
  nf_columns :: "pyval list option"

definition frame_width :: "'a list list \<Rightarrow> nat" where
  "frame_width data = foldr (\<lambda>row k. max (length row) k) data 0"

definition pd_DataFrame :: "pyval list list \<Rightarrow> pyval list option \<Rightarrow> error + new_frame" where
  "pd_DataFrame data columns =
     (case columns of
        None \<Rightarrow> Inr \<lparr>nf_data = data, nf_columns = None\<rparr>
      | Some header \<Rightarrow>
          if data \<noteq> [] \<and> length header \<noteq> frame_width data
          then Inl (ColumnsMismatch (length header) (frame_width data))
          else Inr \<lparr>nf_data = data, nf_columns = Some header\<rparr>)"

text \<open>A list comprehension \<^verbatim>\<open>[f(row) for row in xs]\<close>: the first call that raises ends it.\<close>

fun list_comp :: "('a \<Rightarrow> error + 'b) \<Rightarrow> 'a list \<Rightarrow> error + 'b list" where
  "list_comp f [] = Inr []"
| "list_comp f (x # xs) =
     (case f x of
        Inl e \<Rightarrow> Inl e
      | Inr y \<Rightarrow> (case list_comp f xs of Inl e \<Rightarrow> Inl e | Inr ys \<Rightarrow> Inr (y # ys)))"

definition encode_database :: "dataframe \<Rightarrow> error + int list list" where
  "encode_database df =
     (case encode_record (df_columns df) of
        Inl e \<Rightarrow> Inl e
      | Inr header_record \<Rightarrow>
          (case list_comp encode_record (df_rows df) of
             Inl e \<Rightarrow> Inl e
           | Inr data_records \<Rightarrow> Inr ([header_record] @ data_records)))"

definition decode_database :: "int list list \<Rightarrow> error + new_frame" where
  "decode_database encoded_df =
     (case py_index encoded_df 0 of
        Inl e \<Rightarrow> Inl e
      | Inr header_encoded \<Rightarrow>
          (case decode_record header_encoded of
             Inl e \<Rightarrow> Inl e
           | Inr header \<Rightarrow>
               (case list_comp decode_record (drop 1 encoded_df) of
                  Inl e \<Rightarrow> Inl e
                | Inr data_records \<Rightarrow> pd_DataFrame data_records (Some header))))"

section \<open>The class \<^verbatim>\<open>U8Encoder\<close> (\<^verbatim>\<open>u8_encode.py\<close>)\<close>

text \<open>
  The second copy: the static methods of the class, translated from \<^verbatim>\<open>u8_encode.py\<close> on
  their own. \<^verbatim>\<open>_encode_hint\<close> is \<open>U8Encoder_encode_hint\<close>, and so on.
\<close>

definition U8Encoder_encode_hint :: "string \<Rightarrow> int \<Rightarrow> error + int" where
  "U8Encoder_encode_hint data_type data_bits =
     (let type_map = map_of [(''int'', 1), (''float'', 2), (''str'', 3)]
      in case type_map data_type of
           None \<Rightarrow> Inl UnsupportedDataType
         | Some t \<Rightarrow>
             if \<not> (0 \<le> data_bits \<and> data_bits \<le> 63) then Inl DataBitsOutOfRange
             else Inr (push_bit 6 t OR data_bits))"

definition U8Encoder_decode_hint :: "int \<Rightarrow> error + (string \<times> int)" where
  "U8Encoder_decode_hint encoded_value =
     (let type_map = map_of [(1, ''int''), (2, ''float''), (3, ''str'')];
          data_type = drop_bit 6 encoded_value AND 3;
          data_bits = encoded_value AND 63
      in case type_map data_type of
           None \<Rightarrow> Inl (UnknownTypeCode data_type)
         | Some name \<Rightarrow> Inr (name, data_bits))"

fun U8Encoder_encode_item :: "pyval \<Rightarrow> error + int list" where
  "U8Encoder_encode_item (PInt n) =
     (case U8Encoder_encode_hint ''int'' 8 of
        Inl e \<Rightarrow> Inl e
      | Inr h \<Rightarrow> (case struct_pack_Q n of Inl e \<Rightarrow> Inl e | Inr p \<Rightarrow> Inr (h # p)))"
| "U8Encoder_encode_item (PBool b) =
     (case U8Encoder_encode_hint ''int'' 8 of
        Inl e \<Rightarrow> Inl e
      | Inr h \<Rightarrow> (case struct_pack_Q (of_bool b) of Inl e \<Rightarrow> Inl e | Inr p \<Rightarrow> Inr (h # p)))"
| "U8Encoder_encode_item (PFloat x) =
     (case U8Encoder_encode_hint ''float'' 8 of
        Inl e \<Rightarrow> Inl e
      | Inr h \<Rightarrow> Inr (h # struct_pack_d x))"
| "U8Encoder_encode_item (PStr s) =
     (case utf8_encode s of
        Inl e \<Rightarrow> Inl e
      | Inr encoded_bytes \<Rightarrow>
          (case U8Encoder_encode_hint ''str'' (int (length encoded_bytes)) of
             Inl e \<Rightarrow> Inl e
           | Inr h \<Rightarrow> Inr (h # struct_pack_s (length encoded_bytes) encoded_bytes)))"
| "U8Encoder_encode_item PNone = Inl UnsupportedItemType"

definition U8Encoder_decode_item :: "string \<Rightarrow> int \<Rightarrow> int list \<Rightarrow> error + pyval" where
  "U8Encoder_decode_item item_type item_len encoded_item =
     (if item_type = ''int'' then
        (case py_bytes encoded_item of
           Inl e \<Rightarrow> Inl e
         | Inr bs \<Rightarrow> (case struct_unpack_Q bs of Inl e \<Rightarrow> Inl e | Inr n \<Rightarrow> Inr (PInt n)))
      else if item_type = ''float'' then
        (case py_bytes encoded_item of
           Inl e \<Rightarrow> Inl e
         | Inr bs \<Rightarrow> (case struct_unpack_d bs of Inl e \<Rightarrow> Inl e | Inr x \<Rightarrow> Inr (PFloat x)))
      else if item_type = ''str'' then
        (case py_bytes encoded_item of
           Inl e \<Rightarrow> Inl e
         | Inr bs \<Rightarrow>
             (case struct_unpack_s item_len bs of
                Inl e \<Rightarrow> Inl e
              | Inr raw \<Rightarrow> (case utf8_decode raw of Inl e \<Rightarrow> Inl e | Inr s \<Rightarrow> Inr (PStr s))))
      else Inl UnknownItemType)"

fun U8Encoder_encode_items :: "pyval list \<Rightarrow> int list \<Rightarrow> error + int list" where
  "U8Encoder_encode_items [] encoded_items = Inr encoded_items"
| "U8Encoder_encode_items (item # record) encoded_items =
     (case U8Encoder_encode_item item of
        Inl e \<Rightarrow> Inl e
      | Inr bs \<Rightarrow> U8Encoder_encode_items record (encoded_items @ bs))"

definition U8Encoder_encode_record :: "pyval list \<Rightarrow> error + int list" where
  "U8Encoder_encode_record record =
     (case U8Encoder_encode_items record [] of
        Inl e \<Rightarrow> Inl e
      | Inr encoded_items \<Rightarrow>
          if length encoded_items > 256 then Inl (RecordTooLong (length encoded_items))
          else Inr (encoded_items @ replicate (256 - length encoded_items) 0))"

function U8Encoder_decode_loop ::
  "int list \<Rightarrow> int \<Rightarrow> pyval list \<Rightarrow> error + (int \<times> pyval list)" where
  "U8Encoder_decode_loop encoded_record i decoded_items =
     (if i < 256 then
        (case py_index encoded_record i of
           Inl e \<Rightarrow> Inl e
         | Inr b \<Rightarrow>
             if b = 0 then Inr (i, decoded_items)
             else
               (case U8Encoder_decode_hint b of
                  Inl e \<Rightarrow> Inl e
                | Inr (item_type, item_len) \<Rightarrow>
                    (case U8Encoder_decode_item item_type item_len
                            (py_slice encoded_record (i + 1) (i + 1 + item_len)) of
                       Inl e \<Rightarrow> Inl e
                     | Inr decoded_item \<Rightarrow>
                         U8Encoder_decode_loop encoded_record (i + (item_len + 1))
                           (decoded_items @ [decoded_item]))))
      else Inr (i, decoded_items))"
  by pat_completeness auto
termination
proof -
  have nonneg: "- 1 < b AND 63" for b :: int
  proof -
    have "0 \<le> b AND 63" by simp
    then show ?thesis by linarith
  qed
  show ?thesis
    by (relation "measure (\<lambda>(r, i, d). nat (256 - i))")
       (auto simp: U8Encoder_decode_hint_def Let_def nonneg split: option.splits)
qed

declare U8Encoder_decode_loop.simps [simp del]

definition U8Encoder_decode_record :: "int list \<Rightarrow> error + pyval list" where
  "U8Encoder_decode_record encoded_record =
     (if length encoded_record \<noteq> 256 then Inl (BadRecordLength (length encoded_record))
      else
        (case U8Encoder_decode_loop encoded_record 0 [] of
           Inl e \<Rightarrow> Inl e
         | Inr (i, decoded_items) \<Rightarrow> Inr decoded_items))"

definition U8Encoder_encode_database :: "dataframe \<Rightarrow> error + int list list" where
  "U8Encoder_encode_database df = list_comp U8Encoder_encode_record (df_rows df)"

definition U8Encoder_decode_database :: "int list list \<Rightarrow> error + new_frame" where
  "U8Encoder_decode_database encoded_df =
     (case list_comp U8Encoder_decode_record encoded_df of
        Inl e \<Rightarrow> Inl e
      | Inr data_records \<Rightarrow> pd_DataFrame data_records None)"

section \<open>Values the codec supports\<close>

text \<open>
  The values a row may hold: an integer from 0 to \<open>2 ^ 64 - 1\<close>, a float, and a string
  that has a UTF-8 encoding of at most 63 bytes.
\<close>

fun supported :: "pyval \<Rightarrow> bool" where
  "supported (PInt n) = (0 \<le> n \<and> n < 2 ^ 64)"
| "supported (PFloat x) = True"
| "supported (PStr s) = (case utf8_encode s of Inl e \<Rightarrow> False | Inr bs \<Rightarrow> length bs \<le> 63)"
| "supported (PBool b) = False"
| "supported PNone = False"

text \<open>
  The encoded size of a supported value: one hint byte and the payload, 8 bytes for an
  integer and for a float, the UTF-8 bytes for a string.
\<close>

fun encoded_size :: "pyval \<Rightarrow> nat" where
  "encoded_size (PInt n) = 1 + 8"
| "encoded_size (PFloat x) = 1 + 8"
| "encoded_size (PStr s) = 1 + (case utf8_encode s of Inl e \<Rightarrow> 0 | Inr bs \<Rightarrow> length bs)"
| "encoded_size (PBool b) = 1 + 8"
| "encoded_size PNone = 0"

section \<open>The two copies\<close>

text \<open>
  Below the table level the class is a copy of the module: each method computes what the
  function of the same name computes.
\<close>

lemma U8Encoder_encode_hint_eq: "U8Encoder_encode_hint t l = encode_hint t l"
  by (simp add: U8Encoder_encode_hint_def encode_hint_def type_map_enc_def)

lemma U8Encoder_decode_hint_eq: "U8Encoder_decode_hint b = decode_hint b"
  by (simp add: U8Encoder_decode_hint_def decode_hint_def type_map_dec_def Let_def)

lemma U8Encoder_encode_item_eq: "U8Encoder_encode_item v = encode_item v"
  by (cases v) (simp_all add: U8Encoder_encode_hint_eq encode_item.simps split: sum.splits)

lemma U8Encoder_decode_item_eq: "U8Encoder_decode_item ty n bs = decode_item ty n bs"
  by (simp add: U8Encoder_decode_item_def decode_item_def)

lemma U8Encoder_encode_items_eq: "U8Encoder_encode_items vs acc = encode_items vs acc"
  by (induction vs arbitrary: acc) (simp_all add: U8Encoder_encode_item_eq split: sum.splits)

lemma U8Encoder_encode_record_eq: "U8Encoder_encode_record vs = encode_record vs"
  by (simp add: U8Encoder_encode_record_def encode_record_def U8Encoder_encode_items_eq)

lemma U8Encoder_decode_loop_eq: "U8Encoder_decode_loop buf i acc = decode_loop buf i acc"
proof (induction buf i acc rule: decode_loop.induct)
  case (1 buf i acc)
  show ?case
    apply (subst U8Encoder_decode_loop.simps)
    apply (subst decode_loop.simps)
    apply (simp add: U8Encoder_decode_hint_eq U8Encoder_decode_item_eq "1.IH"
        split: sum.splits prod.splits)
    done
qed

lemma U8Encoder_decode_record_eq: "U8Encoder_decode_record buf = decode_record buf"
  by (simp add: U8Encoder_decode_record_def decode_record_def U8Encoder_decode_loop_eq)

section \<open>Arithmetic of the hint byte\<close>

lemma hint_or_add:
  fixes t l :: int
  assumes "0 \<le> l" "l < 64"
  shows "push_bit 6 t OR l = t * 64 + l"
proof -
  have l: "take_bit 6 l = l"
    using assms by (simp add: take_bit_int_eq_self)
  have "push_bit 6 t + take_bit 6 l = push_bit 6 t OR take_bit 6 l"
    by (rule disjunctive_add) (auto simp: bit_push_bit_iff bit_take_bit_iff)
  then show ?thesis
    by (simp add: l push_bit_eq_mult)
qed

lemma and_63: "(v::int) AND 63 = v mod 64"
proof -
  have "v AND mask 6 = take_bit 6 v" by (simp add: take_bit_eq_mask)
  moreover have "(mask 6 :: int) = 63" by (simp add: mask_eq_exp_minus_1)
  ultimately show ?thesis by (simp add: take_bit_eq_mod)
qed

lemma and_3: "(v::int) AND 3 = v mod 4"
proof -
  have "v AND mask 2 = take_bit 2 v" by (simp add: take_bit_eq_mask)
  moreover have "(mask 2 :: int) = 3" by (simp add: mask_eq_exp_minus_1)
  ultimately show ?thesis by (simp add: take_bit_eq_mod)
qed

lemma type_map_dec_cases:
  "type_map_dec k = (if k = 1 then Some ''int'' else if k = 2 then Some ''float''
     else if k = 3 then Some ''str'' else None)"
  by (simp add: type_map_dec_def)

lemma type_map_enc_cases:
  "type_map_enc s = (if s = ''int'' then Some 1 else if s = ''float'' then Some 2
     else if s = ''str'' then Some 3 else None)"
  by (simp add: type_map_enc_def)

lemma decode_hint_arith:
  "decode_hint v =
     (case type_map_dec (v div 64 mod 4) of
        None \<Rightarrow> Inl (UnknownTypeCode (v div 64 mod 4))
      | Some name \<Rightarrow> Inr (name, v mod 64))"
  by (simp add: decode_hint_def and_63 and_3 drop_bit_eq_div Let_def)

lemma encode_hint_arith:
  "encode_hint s l =
     (case type_map_enc s of None \<Rightarrow> Inl UnsupportedDataType
      | Some t \<Rightarrow> if 0 \<le> l \<and> l \<le> 63 then Inr (t * 64 + l) else Inl DataBitsOutOfRange)"
  by (auto simp: encode_hint_def hint_or_add split: option.splits)

lemma hint_div_mod:
  fixes t l :: int
  assumes "0 \<le> l" "l \<le> 63"
  shows "(t * 64 + l) div 64 = t" and "(t * 64 + l) mod 64 = l"
  using assms by simp_all

lemma decode_encode_hint:
  assumes "encode_hint s l = Inr h"
  shows "decode_hint h = Inr (s, l)"
proof -
  from assms obtain t where t: "type_map_enc s = Some t" and l: "0 \<le> l" "l \<le> 63"
    and h: "h = t * 64 + l"
    by (auto simp: encode_hint_arith split: option.splits if_splits)
  from t have "type_map_dec (t mod 4) = Some s"
    by (auto simp: type_map_enc_cases type_map_dec_cases split: if_splits)
  then show ?thesis
    using l by (simp add: decode_hint_arith h hint_div_mod)
qed

lemma encode_hint_range:
  assumes "encode_hint s l = Inr h"
  shows "64 \<le> h" and "h \<le> 255"
  using assms
  by (auto simp: encode_hint_arith type_map_enc_cases split: option.splits if_splits)

lemma decode_hint_len:
  assumes "decode_hint b = Inr (ty, n)"
  shows "0 \<le> n" and "n \<le> 63"
  using assms by (auto simp: decode_hint_arith split: option.splits)

lemma encode_hint_int8: "encode_hint ''int'' 8 = Inr 72"
  by (simp add: encode_hint_arith type_map_enc_cases)

lemma encode_hint_float8: "encode_hint ''float'' 8 = Inr 136"
  by (simp add: encode_hint_arith type_map_enc_cases)

lemma encode_hint_str:
  "encode_hint ''str'' l = (if 0 \<le> l \<and> l \<le> 63 then Inr (192 + l) else Inl DataBitsOutOfRange)"
  by (simp add: encode_hint_arith type_map_enc_cases)

section \<open>The hint codec\<close>

lemma hint_codec_module:
  "((tag, k) \<in> {(''int'', 1), (''float'', 2), (''str'', 3)} \<and> 0 \<le> len \<and> len \<le> 63 \<longrightarrow>
      encode_hint tag len = Inr (push_bit 6 k OR len) \<and>
      decode_hint (push_bit 6 k OR len) = Inr (tag, len)) \<and>
   encode_hint ''int'' 8 = Inr 72 \<and>
   decode_hint 72 = Inr (''int'', 8) \<and>
   (tag \<notin> {''int'', ''float'', ''str''} \<longrightarrow> encode_hint tag len = Inl UnsupportedDataType) \<and>
   (tag \<in> {''int'', ''float'', ''str''} \<and> (len < 0 \<or> 63 < len) \<longrightarrow>
      encode_hint tag len = Inl DataBitsOutOfRange) \<and>
   (drop_bit 6 v AND 3 = 0 \<longrightarrow> decode_hint v = Inl (UnknownTypeCode 0))"
proof (intro conjI impI)
  assume h: "(tag, k) \<in> {(''int'', 1), (''float'', 2), (''str'', 3)} \<and> 0 \<le> len \<and> len \<le> 63"
  then show enc: "encode_hint tag len = Inr (push_bit 6 k OR len)"
    by (auto simp: encode_hint_def type_map_enc_def)
  then show "decode_hint (push_bit 6 k OR len) = Inr (tag, len)"
    by (rule decode_encode_hint)
next
  show "encode_hint ''int'' 8 = Inr 72"
    by (rule encode_hint_int8)
next
  show "decode_hint 72 = Inr (''int'', 8)"
    using encode_hint_int8 by (rule decode_encode_hint)
next
  assume "tag \<notin> {''int'', ''float'', ''str''}"
  then show "encode_hint tag len = Inl UnsupportedDataType"
    by (simp add: encode_hint_def type_map_enc_def)
next
  assume "tag \<in> {''int'', ''float'', ''str''} \<and> (len < 0 \<or> 63 < len)"
  then show "encode_hint tag len = Inl DataBitsOutOfRange"
    by (auto simp: encode_hint_def type_map_enc_def)
next
  assume "drop_bit 6 v AND 3 = 0"
  then show "decode_hint v = Inl (UnknownTypeCode 0)"
    by (simp add: decode_hint_def type_map_dec_def)
qed

text \<open>
  Claim C4. For a type tag among \<^verbatim>\<open>"int"\<close>, \<^verbatim>\<open>"float"\<close>, \<^verbatim>\<open>"str"\<close> with tag index 1, 2, 3 and a
  length from 0 to 63, \<open>encode_hint\<close> returns \<open>(tag_index << 6) | length\<close> and \<open>decode_hint\<close>
  of that byte returns the tag and the length; \<open>encode_hint "int" 8\<close> is 72 and
  \<open>decode_hint 72\<close> is \<open>("int", 8)\<close>. \<open>encode_hint\<close> fails on any other tag and on any
  length outside 0 to 63; \<open>decode_hint\<close> fails when the two top bits it extracts are 0.
  The same holds of the methods of the class \<open>U8Encoder\<close> in \<^verbatim>\<open>u8_encode.py\<close>.
\<close>

theorem hint_codec:
  "(((tag, k) \<in> {(''int'', 1), (''float'', 2), (''str'', 3)} \<and> 0 \<le> len \<and> len \<le> 63 \<longrightarrow>
      encode_hint tag len = Inr (push_bit 6 k OR len) \<and>
      decode_hint (push_bit 6 k OR len) = Inr (tag, len)) \<and>
   encode_hint ''int'' 8 = Inr 72 \<and>
   decode_hint 72 = Inr (''int'', 8) \<and>
   (tag \<notin> {''int'', ''float'', ''str''} \<longrightarrow> encode_hint tag len = Inl UnsupportedDataType) \<and>
   (tag \<in> {''int'', ''float'', ''str''} \<and> (len < 0 \<or> 63 < len) \<longrightarrow>
      encode_hint tag len = Inl DataBitsOutOfRange) \<and>
   (drop_bit 6 v AND 3 = 0 \<longrightarrow> decode_hint v = Inl (UnknownTypeCode 0))) \<and>
   (((tag, k) \<in> {(''int'', 1), (''float'', 2), (''str'', 3)} \<and> 0 \<le> len \<and> len \<le> 63 \<longrightarrow>
      U8Encoder_encode_hint tag len = Inr (push_bit 6 k OR len) \<and>
      U8Encoder_decode_hint (push_bit 6 k OR len) = Inr (tag, len)) \<and>
   U8Encoder_encode_hint ''int'' 8 = Inr 72 \<and>
   U8Encoder_decode_hint 72 = Inr (''int'', 8) \<and>
   (tag \<notin> {''int'', ''float'', ''str''} \<longrightarrow> U8Encoder_encode_hint tag len = Inl UnsupportedDataType) \<and>
   (tag \<in> {''int'', ''float'', ''str''} \<and> (len < 0 \<or> 63 < len) \<longrightarrow>
      U8Encoder_encode_hint tag len = Inl DataBitsOutOfRange) \<and>
   (drop_bit 6 v AND 3 = 0 \<longrightarrow> U8Encoder_decode_hint v = Inl (UnknownTypeCode 0)))"
  unfolding U8Encoder_encode_hint_eq U8Encoder_decode_hint_eq U8Encoder_encode_item_eq
    U8Encoder_decode_item_eq U8Encoder_encode_record_eq U8Encoder_decode_record_eq
    U8Encoder_decode_loop_eq
  by (rule conjI [OF hint_codec_module hint_codec_module])

theorem hint_codec_witness:
  "encode_hint ''str'' 5 = Inr 197 \<and> decode_hint 197 = Inr (''str'', 5) \<and>
   encode_hint ''bytes'' 5 = Inl UnsupportedDataType \<and>
   encode_hint ''float'' 64 = Inl DataBitsOutOfRange \<and>
   decode_hint 63 = Inl (UnknownTypeCode 0)"
  using hint_codec [of "''str''" 3 5 63, THEN conjunct1] hint_codec [of "''bytes''" 0 5 0, THEN conjunct1]
    hint_codec [of "''float''" 2 64 0, THEN conjunct1]
  by simp

section \<open>Big-endian integers\<close>

lemma length_be_bytes [simp]: "length (be_bytes k n) = k"
  by (induction k arbitrary: n) simp_all

lemma be_bytes_range: "list_all (\<lambda>b. 0 \<le> b \<and> b < 256) (be_bytes k n)"
  by (induction k arbitrary: n) simp_all

lemma be_int_snoc: "be_int (bs @ [b]) = be_int bs * 256 + b"
  by (simp add: be_int_def)

lemma be_int_be_bytes:
  "0 \<le> n \<Longrightarrow> n < 256 ^ k \<Longrightarrow> be_int (be_bytes k n) = n"
proof (induction k arbitrary: n)
  case 0
  then show ?case by (simp add: be_int_def)
next
  case (Suc k)
  have "0 \<le> n div 256" using Suc.prems by simp
  moreover have "n div 256 < 256 ^ k"
    using Suc.prems by (simp add: div_less_iff_less_mult mult.commute)
  ultimately have "be_int (be_bytes k (n div 256)) = n div 256"
    by (rule Suc.IH)
  then show ?case by (simp add: be_int_snoc)
qed

lemma be_bytes_8:
  "be_bytes 8 n =
     [n div 256 ^ 7 mod 256, n div 256 ^ 6 mod 256, n div 256 ^ 5 mod 256,
      n div 256 ^ 4 mod 256, n div 256 ^ 3 mod 256, n div 256 ^ 2 mod 256,
      n div 256 mod 256, n mod 256]"
proof -
  have d: "n div a div 256 = n div (a * 256)" for a :: int
    by (cases "0 \<le> a") (simp_all add: zdiv_zmult2_eq mult.commute)
  show ?thesis
    by (simp add: eval_nat_numeral d)
qed

lemma py_bytes_be_bytes: "py_bytes (be_bytes k n) = Inr (be_bytes k n)"
  by (simp add: py_bytes_def be_bytes_range)

lemma struct_pack_s_self [simp]: "struct_pack_s (length bs) bs = bs"
  by (simp add: struct_pack_s_def)

section \<open>What \<open>encode_item\<close> returns\<close>

lemma encode_item_int:
  "encode_item (PInt n) =
     (if 0 \<le> n \<and> n < 2 ^ 64 then Inr (72 # be_bytes 8 n) else Inl StructError)"
  by (simp add: encode_hint_int8 struct_pack_Q_def)

lemma encode_item_bool: "encode_item (PBool b) = Inr (72 # be_bytes 8 (of_bool b))"
  by (simp add: encode_hint_int8 struct_pack_Q_def)

lemma encode_item_float: "encode_item (PFloat x) = Inr (136 # be_bytes 8 (uint x))"
  by (simp add: encode_hint_float8 struct_pack_d_def)

lemma encode_item_str:
  "encode_item (PStr s) =
     (case utf8_encode s of
        Inl e \<Rightarrow> Inl e
      | Inr bs \<Rightarrow>
          if length bs \<le> 63 then Inr ((192 + int (length bs)) # bs)
          else Inl DataBitsOutOfRange)"
  by (simp add: encode_hint_str split: sum.splits)

lemmas encode_item_eqs =
  encode_item_int encode_item_bool encode_item_float encode_item_str encode_item.simps(5)

declare encode_item.simps [simp del]

lemma encode_item_hd:
  assumes "encode_item v = Inr bs"
  shows "bs \<noteq> []" and "64 \<le> hd bs" and "hd bs \<le> 255"
  using assms
  by (cases v; auto simp: encode_item_eqs split: if_splits sum.splits)+

lemma utf8_encode_ascii:
  "\<forall>c \<in> set s. 0 \<le> c \<and> c < 0x80 \<Longrightarrow> utf8_encode s = Inr s"
  by (induction s) (simp_all add: utf8_encode_cp_def)

section \<open>Sentinel safety\<close>

lemma sentinel_safety_module:
  "(encode_hint tag len = Inr h \<longrightarrow> 64 \<le> h \<and> h \<noteq> 0) \<and>
   (encode_item v = Inr bs \<longrightarrow> bs \<noteq> [] \<and> 64 \<le> hd bs \<and> hd bs \<noteq> 0) \<and>
   encode_hint ''str'' 0 = Inr 192 \<and>
   encode_item (PStr []) = Inr [192]"
proof (intro conjI impI)
  assume h: "encode_hint tag len = Inr h"
  show "64 \<le> h" using h by (rule encode_hint_range)
  then show "h \<noteq> 0" by simp
next
  assume v: "encode_item v = Inr bs"
  show "bs \<noteq> []" using v by (rule encode_item_hd)
  show "64 \<le> hd bs" using v by (rule encode_item_hd)
  then show "hd bs \<noteq> 0" by simp
next
  show "encode_hint ''str'' 0 = Inr 192" by (simp add: encode_hint_str)
  show "encode_item (PStr []) = Inr [192]" by (simp add: encode_item_str)
qed

text \<open>
  Claim C7. Every hint byte that \<open>encode_hint\<close> returns is at least 64, so it is never the
  sentinel 0, and the first byte of every list that \<open>encode_item\<close> returns is such a byte.
  The empty string encodes to the single byte 192 (tag 3, length 0), with no payload.
  The same holds of the methods of the class \<open>U8Encoder\<close> in \<^verbatim>\<open>u8_encode.py\<close>.
\<close>

theorem sentinel_safety:
  "((encode_hint tag len = Inr h \<longrightarrow> 64 \<le> h \<and> h \<noteq> 0) \<and>
   (encode_item v = Inr bs \<longrightarrow> bs \<noteq> [] \<and> 64 \<le> hd bs \<and> hd bs \<noteq> 0) \<and>
   encode_hint ''str'' 0 = Inr 192 \<and>
   encode_item (PStr []) = Inr [192]) \<and>
   ((U8Encoder_encode_hint tag len = Inr h \<longrightarrow> 64 \<le> h \<and> h \<noteq> 0) \<and>
   (U8Encoder_encode_item v = Inr bs \<longrightarrow> bs \<noteq> [] \<and> 64 \<le> hd bs \<and> hd bs \<noteq> 0) \<and>
   U8Encoder_encode_hint ''str'' 0 = Inr 192 \<and>
   U8Encoder_encode_item (PStr []) = Inr [192])"
  unfolding U8Encoder_encode_hint_eq U8Encoder_decode_hint_eq U8Encoder_encode_item_eq
    U8Encoder_decode_item_eq U8Encoder_encode_record_eq U8Encoder_decode_record_eq
    U8Encoder_decode_loop_eq
  by (rule conjI [OF sentinel_safety_module sentinel_safety_module])

theorem sentinel_safety_witness:
  "encode_hint ''float'' 8 = Inr 136 \<and> (64::int) \<le> 136 \<and>
   encode_item (PInt 42) = Inr [72, 0, 0, 0, 0, 0, 0, 0, 42] \<and>
   hd [72, 0, 0, 0, 0, 0, 0, 0, 42] \<noteq> (0::int)"
  using sentinel_safety [of "''float''" 8 136 "PInt 42" "[72, 0, 0, 0, 0, 0, 0, 0, 42]", THEN conjunct1]
  by (simp add: encode_hint_float8 encode_item_int be_bytes_8)

section \<open>The range of integers\<close>

lemma encode_item_int_range_module:
  "(0 \<le> n \<and> n < 2 ^ 64 \<longrightarrow>
      encode_item (PInt n) =
        Inr [72, n div 256 ^ 7 mod 256, n div 256 ^ 6 mod 256, n div 256 ^ 5 mod 256,
             n div 256 ^ 4 mod 256, n div 256 ^ 3 mod 256, n div 256 ^ 2 mod 256,
             n div 256 mod 256, n mod 256] \<and>
      (\<exists>bs. encode_item (PInt n) = Inr bs \<and> length bs = 9)) \<and>
   (n < 0 \<or> 2 ^ 64 \<le> n \<longrightarrow> encode_item (PInt n) = Inl StructError)"
  by (auto simp: encode_item_int be_bytes_8)

text \<open>
  Claim C10. An integer from 0 to \<open>2 ^ 64 - 1\<close> encodes to 9 bytes: the hint byte 72, then
  its 8 bytes, most significant first. A negative integer and an integer of \<open>2 ^ 64\<close> or
  more make \<^verbatim>\<open>struct.pack(">Q", item)\<close> raise \<^verbatim>\<open>struct.error\<close>, which is none of the
  \<^verbatim>\<open>ValueError\<close>s the codec raises itself.
  The same holds of the methods of the class \<open>U8Encoder\<close> in \<^verbatim>\<open>u8_encode.py\<close>.
\<close>

theorem encode_item_int_range:
  "((0 \<le> n \<and> n < 2 ^ 64 \<longrightarrow>
      encode_item (PInt n) =
        Inr [72, n div 256 ^ 7 mod 256, n div 256 ^ 6 mod 256, n div 256 ^ 5 mod 256,
             n div 256 ^ 4 mod 256, n div 256 ^ 3 mod 256, n div 256 ^ 2 mod 256,
             n div 256 mod 256, n mod 256] \<and>
      (\<exists>bs. encode_item (PInt n) = Inr bs \<and> length bs = 9)) \<and>
   (n < 0 \<or> 2 ^ 64 \<le> n \<longrightarrow> encode_item (PInt n) = Inl StructError)) \<and>
   ((0 \<le> n \<and> n < 2 ^ 64 \<longrightarrow>
      U8Encoder_encode_item (PInt n) =
        Inr [72, n div 256 ^ 7 mod 256, n div 256 ^ 6 mod 256, n div 256 ^ 5 mod 256,
             n div 256 ^ 4 mod 256, n div 256 ^ 3 mod 256, n div 256 ^ 2 mod 256,
             n div 256 mod 256, n mod 256] \<and>
      (\<exists>bs. U8Encoder_encode_item (PInt n) = Inr bs \<and> length bs = 9)) \<and>
   (n < 0 \<or> 2 ^ 64 \<le> n \<longrightarrow> U8Encoder_encode_item (PInt n) = Inl StructError))"
  unfolding U8Encoder_encode_hint_eq U8Encoder_decode_hint_eq U8Encoder_encode_item_eq
    U8Encoder_decode_item_eq U8Encoder_encode_record_eq U8Encoder_decode_record_eq
    U8Encoder_decode_loop_eq
  by (rule conjI [OF encode_item_int_range_module encode_item_int_range_module])

theorem encode_item_int_range_witness:
  "encode_item (PInt 258) = Inr [72, 0, 0, 0, 0, 0, 0, 1, 2] \<and>
   encode_item (PInt (- 1)) = Inl StructError \<and>
   encode_item (PInt (2 ^ 64)) = Inl StructError"
  using encode_item_int_range [of 258, THEN conjunct1] encode_item_int_range [of "- 1", THEN conjunct1]
    encode_item_int_range [of "2 ^ 64", THEN conjunct1]
  by simp

section \<open>The length limit of strings\<close>

lemma encode_item_str_limit_module:
  "utf8_encode s = Inr bs \<longrightarrow>
     (length bs \<le> 63 \<longrightarrow>
        (\<exists>h. encode_hint ''str'' (int (length bs)) = Inr h \<and>
             encode_item (PStr s) = Inr (h # bs))) \<and>
     (63 < length bs \<longrightarrow> encode_item (PStr s) = Inl DataBitsOutOfRange)"
  by (auto simp: encode_item_str encode_hint_str)

text \<open>
  Claim C6. A string whose UTF-8 encoding has \<open>L\<close> bytes encodes, when \<open>L \<le> 63\<close> (also
  \<open>L = 0\<close>), to the hint byte of \<open>("str", L)\<close> followed by these bytes; when \<open>L > 63\<close>,
  \<open>encode_item\<close> fails: the length check of \<open>encode_hint\<close> raises its \<^verbatim>\<open>ValueError\<close>. A
  string of 63 bytes encodes and one of 64 bytes fails.
  The same holds of the methods of the class \<open>U8Encoder\<close> in \<^verbatim>\<open>u8_encode.py\<close>.
\<close>

theorem encode_item_str_limit:
  "(utf8_encode s = Inr bs \<longrightarrow>
     (length bs \<le> 63 \<longrightarrow>
        (\<exists>h. encode_hint ''str'' (int (length bs)) = Inr h \<and>
             encode_item (PStr s) = Inr (h # bs))) \<and>
     (63 < length bs \<longrightarrow> encode_item (PStr s) = Inl DataBitsOutOfRange)) \<and>
   (utf8_encode s = Inr bs \<longrightarrow>
     (length bs \<le> 63 \<longrightarrow>
        (\<exists>h. U8Encoder_encode_hint ''str'' (int (length bs)) = Inr h \<and>
             U8Encoder_encode_item (PStr s) = Inr (h # bs))) \<and>
     (63 < length bs \<longrightarrow> U8Encoder_encode_item (PStr s) = Inl DataBitsOutOfRange))"
  unfolding U8Encoder_encode_hint_eq U8Encoder_decode_hint_eq U8Encoder_encode_item_eq
    U8Encoder_decode_item_eq U8Encoder_encode_record_eq U8Encoder_decode_record_eq
    U8Encoder_decode_loop_eq
  by (rule conjI [OF encode_item_str_limit_module encode_item_str_limit_module])

theorem encode_item_str_limit_witness:
  "utf8_encode (replicate 63 97) = Inr (replicate 63 97) \<and>
   encode_item (PStr (replicate 63 97)) = Inr (255 # replicate 63 97) \<and>
   utf8_encode (replicate 64 97) = Inr (replicate 64 97) \<and>
   encode_item (PStr (replicate 64 97)) = Inl DataBitsOutOfRange \<and>
   utf8_encode [] = Inr [] \<and>
   encode_item (PStr []) = Inr [192] \<and>
   utf8_encode [0x554A, 0x1F600] = Inr [229, 149, 138, 240, 159, 152, 128] \<and>
   encode_item (PStr [0x554A, 0x1F600]) = Inr [199, 229, 149, 138, 240, 159, 152, 128]"
proof -
  have a: "utf8_encode (replicate n 97) = Inr (replicate n 97)" for n
    by (rule utf8_encode_ascii) simp
  show ?thesis
    using encode_item_str_limit [of "replicate 63 97" "replicate 63 97", THEN conjunct1]
      encode_item_str_limit [of "replicate 64 97" "replicate 64 97", THEN conjunct1]
      encode_item_str_limit [of "[]" "[]", THEN conjunct1]
      encode_item_str_limit [of "[0x554A, 0x1F600]" "[229, 149, 138, 240, 159, 152, 128]", THEN conjunct1]
    by (simp add: a encode_hint_str utf8_encode_cp_def)
qed

section \<open>What \<open>encode_record\<close> returns\<close>

lemma encode_items_concat:
  "list_all2 (\<lambda>v bs. encode_item v = Inr bs) vs bss \<Longrightarrow>
     encode_items vs acc = Inr (acc @ concat bss)"
proof (induction vs arbitrary: acc bss)
  case Nil
  then show ?case by simp
next
  case (Cons v vs)
  then obtain bs rest where bss: "bss = bs # rest" and v: "encode_item v = Inr bs"
    and rest: "list_all2 (\<lambda>v bs. encode_item v = Inr bs) vs rest"
    by (auto simp: list_all2_Cons1)
  show ?case
    by (simp add: bss v Cons.IH [OF rest])
qed

lemma encode_items_Inr:
  "encode_items vs acc = Inr r \<Longrightarrow>
     \<exists>bss. list_all2 (\<lambda>v bs. encode_item v = Inr bs) vs bss \<and> r = acc @ concat bss"
proof (induction vs arbitrary: acc)
  case Nil
  then show ?case by simp
next
  case (Cons v vs)
  from Cons.prems obtain bs where v: "encode_item v = Inr bs"
    and r: "encode_items vs (acc @ bs) = Inr r"
    by (auto split: sum.splits)
  from Cons.IH [OF r] obtain rest
    where "list_all2 (\<lambda>v bs. encode_item v = Inr bs) vs rest" "r = (acc @ bs) @ concat rest"
    by blast
  with v have "list_all2 (\<lambda>v bs. encode_item v = Inr bs) (v # vs) (bs # rest)
      \<and> r = acc @ concat (bs # rest)"
    by simp
  then show ?case by blast
qed

lemma utf8_encode_Inl: "utf8_encode s = Inl e \<Longrightarrow> e = UnicodeEncodeError"
  by (induction s) (auto simp: utf8_encode_cp_def split: sum.splits if_splits)

lemma encode_item_Inl:
  "encode_item v = Inl e \<Longrightarrow>
     e \<in> {StructError, UnicodeEncodeError, DataBitsOutOfRange, UnsupportedItemType}"
  by (cases v) (auto simp: encode_item_eqs split: sum.splits if_splits dest: utf8_encode_Inl)

lemma encode_items_Inl:
  "encode_items vs acc = Inl e \<Longrightarrow>
     e \<in> {StructError, UnicodeEncodeError, DataBitsOutOfRange, UnsupportedItemType}"
proof (induction vs arbitrary: acc)
  case Nil
  then show ?case by simp
next
  case (Cons v vs)
  show ?case
  proof (cases "encode_item v")
    case (Inl e')
    with Cons.prems have "e' = e" by simp
    with Inl show ?thesis by (auto dest: encode_item_Inl)
  next
    case (Inr bs)
    with Cons.prems have "encode_items vs (acc @ bs) = Inl e" by simp
    then show ?thesis by (rule Cons.IH)
  qed
qed

lemma encode_record_concat:
  assumes "list_all2 (\<lambda>v bs. encode_item v = Inr bs) vs bss"
  shows "encode_record vs =
    (if 256 < length (concat bss) then Inl (RecordTooLong (length (concat bss)))
     else Inr (concat bss @ replicate (256 - length (concat bss)) 0))"
  using encode_items_concat [OF assms, of "[]"] by (simp add: encode_record_def)

lemma encode_record_too_long:
  assumes "encode_record vs = Inl (RecordTooLong n)"
  shows "\<exists>bss. list_all2 (\<lambda>v bs. encode_item v = Inr bs) vs bss \<and> n = length (concat bss)
    \<and> 256 < n"
proof (cases "encode_items vs []")
  case (Inl e)
  have "e \<noteq> RecordTooLong n"
    using encode_items_Inl [OF Inl] by auto
  then show ?thesis using assms Inl by (simp add: encode_record_def)
next
  case (Inr r)
  from encode_items_Inr [OF Inr] obtain bss
    where "list_all2 (\<lambda>v bs. encode_item v = Inr bs) vs bss" "r = concat bss"
    by auto
  with assms Inr show ?thesis
    by (auto simp: encode_record_def split: if_splits)
qed


section \<open>Records that are too long\<close>

lemma encode_items_first_error:
  "list_all2 (\<lambda>v bs. encode_item v = Inr bs) pre pss \<Longrightarrow> encode_item bad = Inl err \<Longrightarrow>
     encode_items (pre @ bad # post) acc = Inl err"
  by (induction arbitrary: acc rule: list_all2_induct) simp_all

lemma encode_record_Inr:
  assumes "encode_record vs = Inr out"
  shows "length out = 256"
    and "\<exists>bss. list_all2 (\<lambda>v bs. encode_item v = Inr bs) vs bss \<and>
      length (concat bss) \<le> 256 \<and>
      out = concat bss @ replicate (256 - length (concat bss)) 0"
proof -
  from assms obtain r where r: "encode_items vs [] = Inr r" and le: "length r \<le> 256"
    and out: "out = r @ replicate (256 - length r) 0"
    by (auto simp: encode_record_def split: sum.splits if_splits)
  show "length out = 256" using le by (simp add: out)
  from encode_items_Inr [OF r] obtain bss
    where "list_all2 (\<lambda>v bs. encode_item v = Inr bs) vs bss" "r = concat bss"
    by auto
  with le out show "\<exists>bss. list_all2 (\<lambda>v bs. encode_item v = Inr bs) vs bss \<and>
      length (concat bss) \<le> 256 \<and>
      out = concat bss @ replicate (256 - length (concat bss)) 0"
    by blast
qed

lemma encode_record_limit_module:
  "(list_all2 (\<lambda>v bs. encode_item v = Inr bs) vs bss \<longrightarrow>
      ((\<exists>e. encode_record vs = Inl e) \<longleftrightarrow> 256 < length (concat bss)) \<and>
      (256 < length (concat bss) \<longrightarrow>
         encode_record vs = Inl (RecordTooLong (length (concat bss)))) \<and>
      (length (concat bss) \<le> 256 \<longrightarrow>
         (\<exists>buf. encode_record vs = Inr buf \<and> length buf = 256 \<and>
            buf = concat bss @ replicate (256 - length (concat bss)) 0))) \<and>
   (encode_record vs = Inl (RecordTooLong n) \<longrightarrow>
      (\<exists>bss. list_all2 (\<lambda>v bs. encode_item v = Inr bs) vs bss \<and> n = length (concat bss) \<and>
         256 < n)) \<and>
   (encode_record vs = Inr out \<longrightarrow>
      length out = 256 \<and>
      (\<exists>bss. list_all2 (\<lambda>v bs. encode_item v = Inr bs) vs bss \<and>
         length (concat bss) \<le> 256 \<and>
         out = concat bss @ replicate (256 - length (concat bss)) 0)) \<and>
   (list_all2 (\<lambda>v bs. encode_item v = Inr bs) pre pss \<and> encode_item bad = Inl err \<longrightarrow>
      encode_record (pre @ bad # post) = Inl err) \<and>
   encode_record (replicate 33 (PInt 1)) = Inl (RecordTooLong 297)"
proof (intro conjI impI)
  assume a: "list_all2 (\<lambda>v bs. encode_item v = Inr bs) vs bss"
  note eq = encode_record_concat [OF a]
  show "(\<exists>e. encode_record vs = Inl e) \<longleftrightarrow> 256 < length (concat bss)"
    by (simp add: eq)
  show "encode_record vs = Inl (RecordTooLong (length (concat bss)))"
    if "256 < length (concat bss)"
    using that by (simp add: eq)
  show "\<exists>buf. encode_record vs = Inr buf \<and> length buf = 256 \<and>
      buf = concat bss @ replicate (256 - length (concat bss)) 0"
    if "length (concat bss) \<le> 256"
    using that by (simp add: eq)
next
  assume "encode_record vs = Inl (RecordTooLong n)"
  then show "\<exists>bss. list_all2 (\<lambda>v bs. encode_item v = Inr bs) vs bss \<and> n = length (concat bss)
      \<and> 256 < n"
    by (rule encode_record_too_long)
next
  assume r: "encode_record vs = Inr out"
  show "length out = 256" using r by (rule encode_record_Inr)
  show "\<exists>bss. list_all2 (\<lambda>v bs. encode_item v = Inr bs) vs bss \<and>
      length (concat bss) \<le> 256 \<and>
      out = concat bss @ replicate (256 - length (concat bss)) 0"
    using r by (rule encode_record_Inr)
next
  assume "list_all2 (\<lambda>v bs. encode_item v = Inr bs) pre pss \<and> encode_item bad = Inl err"
  then have "encode_items (pre @ bad # post) [] = Inl err"
    using encode_items_first_error by blast
  then show "encode_record (pre @ bad # post) = Inl err"
    by (simp add: encode_record_def)
next
  have "list_all2 (\<lambda>v bs. encode_item v = Inr bs) (replicate 33 (PInt 1))
      (replicate 33 (72 # be_bytes 8 1))"
    by (simp add: list_all2_conv_all_nth encode_item_int)
  from encode_record_concat [OF this]
  show "encode_record (replicate 33 (PInt 1)) = Inl (RecordTooLong 297)"
    by (simp add: length_concat sum_list_replicate)
qed

text \<open>
  Claim C5. For every list of values, \<open>encode_record\<close> raises the \<^verbatim>\<open>ValueError\<close> of its
  length check if and only if every value encodes and the concatenation of the encodings
  has more than 256 bytes. When every value encodes, that is the only way it fails, and
  otherwise it returns exactly 256 bytes: the concatenation followed by zero bytes,
  nothing cut off. Whenever it returns, on any list, every value has encoded and the
  result is these 256 bytes; when a value does not encode, the error of the first such
  value is the result. A record of 33 integers (297 bytes) fails.
  The same holds of the methods of the class \<open>U8Encoder\<close> in \<^verbatim>\<open>u8_encode.py\<close>.
\<close>

theorem encode_record_limit:
  "((list_all2 (\<lambda>v bs. encode_item v = Inr bs) vs bss \<longrightarrow>
      ((\<exists>e. encode_record vs = Inl e) \<longleftrightarrow> 256 < length (concat bss)) \<and>
      (256 < length (concat bss) \<longrightarrow>
         encode_record vs = Inl (RecordTooLong (length (concat bss)))) \<and>
      (length (concat bss) \<le> 256 \<longrightarrow>
         (\<exists>buf. encode_record vs = Inr buf \<and> length buf = 256 \<and>
            buf = concat bss @ replicate (256 - length (concat bss)) 0))) \<and>
   (encode_record vs = Inl (RecordTooLong n) \<longrightarrow>
      (\<exists>bss. list_all2 (\<lambda>v bs. encode_item v = Inr bs) vs bss \<and> n = length (concat bss) \<and>
         256 < n)) \<and>
   (encode_record vs = Inr out \<longrightarrow>
      length out = 256 \<and>
      (\<exists>bss. list_all2 (\<lambda>v bs. encode_item v = Inr bs) vs bss \<and>
         length (concat bss) \<le> 256 \<and>
         out = concat bss @ replicate (256 - length (concat bss)) 0)) \<and>
   (list_all2 (\<lambda>v bs. encode_item v = Inr bs) pre pss \<and> encode_item bad = Inl err \<longrightarrow>
      encode_record (pre @ bad # post) = Inl err) \<and>
   encode_record (replicate 33 (PInt 1)) = Inl (RecordTooLong 297)) \<and>
   ((list_all2 (\<lambda>v bs. U8Encoder_encode_item v = Inr bs) vs bss \<longrightarrow>
      ((\<exists>e. U8Encoder_encode_record vs = Inl e) \<longleftrightarrow> 256 < length (concat bss)) \<and>
      (256 < length (concat bss) \<longrightarrow>
         U8Encoder_encode_record vs = Inl (RecordTooLong (length (concat bss)))) \<and>
      (length (concat bss) \<le> 256 \<longrightarrow>
         (\<exists>buf. U8Encoder_encode_record vs = Inr buf \<and> length buf = 256 \<and>
            buf = concat bss @ replicate (256 - length (concat bss)) 0))) \<and>
   (U8Encoder_encode_record vs = Inl (RecordTooLong n) \<longrightarrow>
      (\<exists>bss. list_all2 (\<lambda>v bs. U8Encoder_encode_item v = Inr bs) vs bss \<and> n = length (concat bss) \<and>
         256 < n)) \<and>
   (U8Encoder_encode_record vs = Inr out \<longrightarrow>
      length out = 256 \<and>
      (\<exists>bss. list_all2 (\<lambda>v bs. U8Encoder_encode_item v = Inr bs) vs bss \<and>
         length (concat bss) \<le> 256 \<and>
         out = concat bss @ replicate (256 - length (concat bss)) 0)) \<and>
   (list_all2 (\<lambda>v bs. U8Encoder_encode_item v = Inr bs) pre pss \<and> U8Encoder_encode_item bad = Inl err \<longrightarrow>
      U8Encoder_encode_record (pre @ bad # post) = Inl err) \<and>
   U8Encoder_encode_record (replicate 33 (PInt 1)) = Inl (RecordTooLong 297))"
  unfolding U8Encoder_encode_hint_eq U8Encoder_decode_hint_eq U8Encoder_encode_item_eq
    U8Encoder_decode_item_eq U8Encoder_encode_record_eq U8Encoder_decode_record_eq
    U8Encoder_decode_loop_eq
  by (rule conjI [OF encode_record_limit_module encode_record_limit_module])

theorem encode_record_limit_witness:
  "list_all2 (\<lambda>v bs. encode_item v = Inr bs) [PInt 1, PStr [104, 105]]
       [[72, 0, 0, 0, 0, 0, 0, 0, 1], [194, 104, 105]] \<and>
   encode_record [PInt 1, PStr [104, 105]] =
     Inr ([72, 0, 0, 0, 0, 0, 0, 0, 1, 194, 104, 105] @ replicate 244 0) \<and>
   (\<exists>bss. list_all2 (\<lambda>v bs. encode_item v = Inr bs) [PInt 1, PStr [104, 105]] bss \<and>
      length (concat bss) \<le> 256 \<and>
      [72, 0, 0, 0, 0, 0, 0, 0, 1, 194, 104, 105] @ replicate 244 0
        = concat bss @ replicate (256 - length (concat bss)) 0) \<and>
   (\<exists>bss. list_all2 (\<lambda>v bs. encode_item v = Inr bs) (replicate 33 (PInt 1)) bss \<and>
      297 = length (concat bss)) \<and>
   encode_item (PInt (- 1)) = Inl StructError \<and>
   encode_record ([PInt 7] @ PInt (- 1) # [PInt 8]) = Inl StructError \<and>
   U8Encoder_encode_item (PInt (- 1)) = Inl StructError \<and>
   U8Encoder_encode_record ([PInt 7] @ PInt (- 1) # [PInt 8]) = Inl StructError \<and>
   U8Encoder_encode_record [PInt 1, PStr [104, 105]] =
     Inr ([72, 0, 0, 0, 0, 0, 0, 0, 1, 194, 104, 105] @ replicate 244 0)"
proof -
  let ?vs = "[PInt 1, PStr [104, 105]]"
  let ?bss = "[[72, 0, 0, 0, 0, 0, 0, 0, 1], [194, 104, 105 :: int]]"
  let ?out = "[72, 0, 0, 0, 0, 0, 0, 0, 1, 194, 104, 105] @ replicate 244 (0::int)"
  note T = encode_record_limit [where vs = ?vs and bss = ?bss and n = 297 and out = ?out
      and pre = "[PInt 7]" and pss = "[[72, 0, 0, 0, 0, 0, 0, 0, 7]]" and bad = "PInt (- 1)"
      and err = StructError and post = "[PInt 8]"]
  note M = T [THEN conjunct1] and C = T [THEN conjunct2]
  have a: "list_all2 (\<lambda>v bs. encode_item v = Inr bs) ?vs ?bss"
    by (simp add: encode_item_int encode_item_str be_bytes_8 utf8_encode_cp_def)
  have a': "list_all2 (\<lambda>v bs. U8Encoder_encode_item v = Inr bs) ?vs ?bss"
    using a by (simp only: U8Encoder_encode_item_eq)
  have p: "list_all2 (\<lambda>v bs. encode_item v = Inr bs) [PInt 7] [[72, 0, 0, 0, 0, 0, 0, 0, 7]]"
    by (simp add: encode_item_int be_bytes_8)
  have p': "list_all2 (\<lambda>v bs. U8Encoder_encode_item v = Inr bs) [PInt 7]
      [[72, 0, 0, 0, 0, 0, 0, 0, 7]]"
    using p by (simp only: U8Encoder_encode_item_eq)
  have b: "encode_item (PInt (- 1)) = Inl StructError"
    by (simp add: encode_item_int)
  have b': "U8Encoder_encode_item (PInt (- 1)) = Inl StructError"
    using b by (simp only: U8Encoder_encode_item_eq)
  from M a have 1: "encode_record ?vs = Inr ?out"
    by simp
  from M 1 have 2: "\<exists>bss. list_all2 (\<lambda>v bs. encode_item v = Inr bs) ?vs bss \<and>
      length (concat bss) \<le> 256 \<and> ?out = concat bss @ replicate (256 - length (concat bss)) 0"
    by blast
  from encode_record_limit [where vs = "replicate 33 (PInt 1)" and n = 297, THEN conjunct1]
  have 3: "\<exists>bss. list_all2 (\<lambda>v bs. encode_item v = Inr bs) (replicate 33 (PInt 1)) bss \<and>
      297 = length (concat bss)"
    by blast
  from M p b have 4: "encode_record ([PInt 7] @ PInt (- 1) # [PInt 8]) = Inl StructError"
    by blast
  from C p' b' have 5: "U8Encoder_encode_record ([PInt 7] @ PInt (- 1) # [PInt 8])
      = Inl StructError"
    by blast
  from C a' have 6: "U8Encoder_encode_record ?vs = Inr ?out"
    by simp
  from a 1 2 3 b 4 b' 5 6 show ?thesis
    by (intro conjI)
qed

section \<open>UTF-8 round trip\<close>

lemma utf8_decode_two:
  fixes a b :: int
  assumes "2 \<le> a" "a \<le> 31" "0 \<le> b" "b \<le> 63"
  shows "utf8_decode ((0xC0 + a) # (0x80 + b) # rest) = utf8_cons (a * 64 + b) (utf8_decode rest)"
  using assms by (simp add: is_cont_def)

lemma utf8_decode_three:
  fixes a b d :: int
  assumes "0 \<le> a" "a \<le> 15" "0 \<le> b" "b \<le> 63" "0 \<le> d" "d \<le> 63"
    and "0x800 \<le> a * 4096 + b * 64 + d"
    and "\<not> (0xD800 \<le> a * 4096 + b * 64 + d \<and> a * 4096 + b * 64 + d \<le> 0xDFFF)"
  shows "utf8_decode ((0xE0 + a) # (0x80 + b) # (0x80 + d) # rest)
    = utf8_cons (a * 4096 + b * 64 + d) (utf8_decode rest)"
  using assms by (simp add: is_cont_def Let_def add.assoc)

lemma utf8_decode_four:
  fixes a b d e :: int
  assumes "0 \<le> a" "a \<le> 4" "0 \<le> b" "b \<le> 63" "0 \<le> d" "d \<le> 63" "0 \<le> e" "e \<le> 63"
    and "0x10000 \<le> a * 262144 + b * 4096 + d * 64 + e"
    and "a * 262144 + b * 4096 + d * 64 + e \<le> 0x10FFFF"
  shows "utf8_decode ((0xF0 + a) # (0x80 + b) # (0x80 + d) # (0x80 + e) # rest)
    = utf8_cons (a * 262144 + b * 4096 + d * 64 + e) (utf8_decode rest)"
  using assms by (simp add: is_cont_def Let_def add.assoc)

lemma split_64:
  fixes c :: int
  shows "c div 64 * 64 + c mod 64 = c"
    and "c div 4096 * 4096 + c div 64 mod 64 * 64 + c mod 64 = c"
    and "c div 262144 * 262144 + c div 4096 mod 64 * 4096 + c div 64 mod 64 * 64 + c mod 64 = c"
proof -
  define q0 r0 q1 r1 q2 r2
    where "q0 = c div 64" and "r0 = c mod 64" and "q1 = q0 div 64" and "r1 = q0 mod 64"
      and "q2 = q1 div 64" and "r2 = q1 mod 64"
  have 0: "q0 * 64 + r0 = c" and 1: "q1 * 64 + r1 = q0" and 2: "q2 * 64 + r2 = q1"
    by (simp_all add: q0_def r0_def q1_def r1_def q2_def r2_def)
  have a: "c div 4096 = q1" "c div 262144 = q2"
    by (simp_all add: q0_def q1_def q2_def zdiv_zmult2_eq)
  have b: "q1 * 4096 + r1 * 64 + r0 = c"
    using 0 1 by linarith
  have d: "q2 * 262144 + r2 * 4096 + r1 * 64 + r0 = c"
    using 0 1 2 by linarith
  show "c div 64 * 64 + c mod 64 = c" by simp
  show "c div 4096 * 4096 + c div 64 mod 64 * 64 + c mod 64 = c"
    using b by (simp only: a r1_def r0_def q0_def)
  show "c div 262144 * 262144 + c div 4096 mod 64 * 4096 + c div 64 mod 64 * 64 + c mod 64 = c"
    using d a(1) by (simp only: a(2) r2_def r1_def r0_def q0_def)
qed

lemma mod_64_bounds:
  fixes x :: int
  shows "0 \<le> x mod 64" and "x mod 64 \<le> 63"
  by simp_all

lemma utf8_encode_cp_Inr:
  assumes "utf8_encode_cp c = Inr bs"
  shows "0 \<le> c" and "c < 0x110000" and "\<not> (0xD800 \<le> c \<and> c \<le> 0xDFFF)"
proof -
  show "0 \<le> c"
    by (rule ccontr) (use assms in \<open>simp add: utf8_encode_cp_def\<close>)
  show "c < 0x110000"
    by (rule ccontr) (use assms in \<open>simp add: utf8_encode_cp_def\<close>)
  show "\<not> (0xD800 \<le> c \<and> c \<le> 0xDFFF)"
    by (rule notI) (use assms in \<open>simp add: utf8_encode_cp_def\<close>)
qed

lemma utf8_decode_encode_cp:
  assumes "utf8_encode_cp c = Inr bs"
  shows "utf8_decode (bs @ rest) = utf8_cons c (utf8_decode rest)"
proof -
  note c = utf8_encode_cp_Inr [OF assms]
  consider "c < 0x80" | "0x80 \<le> c" "c < 0x800" | "0x800 \<le> c" "c < 0x10000" | "0x10000 \<le> c"
    by linarith
  then show ?thesis
  proof cases
    case 1
    with c(1) assms have "bs = [c]"
      by (simp add: utf8_encode_cp_def)
    with 1 c(1) show ?thesis by simp
  next
    case 2
    with assms have bs: "bs = [0xC0 + c div 64, 0x80 + c mod 64]"
      by (simp add: utf8_encode_cp_def)
    have "2 \<le> c div 64" "c div 64 \<le> 31" using 2 by simp_all
    from utf8_decode_two [OF this mod_64_bounds, of c rest] show ?thesis
      by (simp only: bs split_64 append_Cons append_Nil)
  next
    case 3
    with assms c(3) have bs: "bs = [0xE0 + c div 4096, 0x80 + c div 64 mod 64, 0x80 + c mod 64]"
      by (simp add: utf8_encode_cp_def)
    have a: "0 \<le> c div 4096" "c div 4096 \<le> 15" using 3 by simp_all
    have e: "c div 4096 * 4096 + c div 64 mod 64 * 64 + c mod 64 = c"
      by (rule split_64)
    have lo: "0x800 \<le> c div 4096 * 4096 + c div 64 mod 64 * 64 + c mod 64"
      unfolding e by (rule 3)
    have sur: "\<not> (0xD800 \<le> c div 4096 * 4096 + c div 64 mod 64 * 64 + c mod 64
        \<and> c div 4096 * 4096 + c div 64 mod 64 * 64 + c mod 64 \<le> 0xDFFF)"
      unfolding e by (rule c)
    from utf8_decode_three [OF a mod_64_bounds mod_64_bounds lo sur, of rest]
    show ?thesis
      by (simp only: bs e append_Cons append_Nil)
  next
    case 4
    with assms c(2) have bs: "bs = [0xF0 + c div 262144, 0x80 + c div 4096 mod 64,
        0x80 + c div 64 mod 64, 0x80 + c mod 64]"
      by (simp add: utf8_encode_cp_def)
    have a: "0 \<le> c div 262144" "c div 262144 \<le> 4" using 4 c(2) by simp_all
    have e: "c div 262144 * 262144 + c div 4096 mod 64 * 4096 + c div 64 mod 64 * 64 + c mod 64
        = c"
      by (rule split_64)
    have lo: "0x10000 \<le> c div 262144 * 262144 + c div 4096 mod 64 * 4096
        + c div 64 mod 64 * 64 + c mod 64"
      unfolding e by (rule 4)
    have hi: "c div 262144 * 262144 + c div 4096 mod 64 * 4096 + c div 64 mod 64 * 64
        + c mod 64 \<le> 0x10FFFF"
      unfolding e using c(2) by simp
    from utf8_decode_four [OF a mod_64_bounds mod_64_bounds mod_64_bounds lo hi, of rest]
    show ?thesis
      by (simp only: bs e append_Cons append_Nil)
  qed
qed

lemma utf8_decode_encode:
  "utf8_encode s = Inr bs \<Longrightarrow> utf8_decode bs = Inr s"
proof (induction s arbitrary: bs)
  case Nil
  then show ?case by simp
next
  case (Cons c s)
  from Cons.prems obtain b rest where c: "utf8_encode_cp c = Inr b"
    and rest: "utf8_encode s = Inr rest" and bs: "bs = b @ rest"
    by (auto split: sum.splits)
  show ?case
    by (simp add: bs utf8_decode_encode_cp [OF c] Cons.IH [OF rest] utf8_cons_def)
qed


lemma bytes_two:
  fixes a b :: int
  assumes "2 \<le> a" "a \<le> 31" "0 \<le> b" "b \<le> 63"
  shows "list_all (\<lambda>x. 0 \<le> x \<and> x < 256) [0xC0 + a, 0x80 + b]"
  using assms by simp

lemma bytes_three:
  fixes a b d :: int
  assumes "0 \<le> a" "a \<le> 15" "0 \<le> b" "b \<le> 63" "0 \<le> d" "d \<le> 63"
  shows "list_all (\<lambda>x. 0 \<le> x \<and> x < 256) [0xE0 + a, 0x80 + b, 0x80 + d]"
  using assms by simp

lemma bytes_four:
  fixes a b d e :: int
  assumes "0 \<le> a" "a \<le> 4" "0 \<le> b" "b \<le> 63" "0 \<le> d" "d \<le> 63" "0 \<le> e" "e \<le> 63"
  shows "list_all (\<lambda>x. 0 \<le> x \<and> x < 256) [0xF0 + a, 0x80 + b, 0x80 + d, 0x80 + e]"
  using assms by simp

lemma utf8_encode_cp_range:
  assumes "utf8_encode_cp c = Inr bs"
  shows "list_all (\<lambda>b. 0 \<le> b \<and> b < 256) bs"
proof -
  note c = utf8_encode_cp_Inr [OF assms]
  consider "c < 0x80" | "0x80 \<le> c" "c < 0x800" | "0x800 \<le> c" "c < 0x10000" | "0x10000 \<le> c"
    by linarith
  then show ?thesis
  proof cases
    case 1
    with c(1) assms have "bs = [c]"
      by (simp add: utf8_encode_cp_def)
    with 1 c(1) show ?thesis by simp
  next
    case 2
    with assms have bs: "bs = [0xC0 + c div 64, 0x80 + c mod 64]"
      by (simp add: utf8_encode_cp_def)
    have "2 \<le> c div 64" "c div 64 \<le> 31" using 2 by simp_all
    then show ?thesis unfolding bs by (rule bytes_two [OF _ _ mod_64_bounds])
  next
    case 3
    with assms c(3) have bs: "bs = [0xE0 + c div 4096, 0x80 + c div 64 mod 64, 0x80 + c mod 64]"
      by (simp add: utf8_encode_cp_def)
    have "0 \<le> c div 4096" "c div 4096 \<le> 15" using 3 by simp_all
    then show ?thesis unfolding bs
      by (rule bytes_three [OF _ _ mod_64_bounds mod_64_bounds])
  next
    case 4
    with assms c(2) have bs: "bs = [0xF0 + c div 262144, 0x80 + c div 4096 mod 64,
        0x80 + c div 64 mod 64, 0x80 + c mod 64]"
      by (simp add: utf8_encode_cp_def)
    have "0 \<le> c div 262144" "c div 262144 \<le> 4" using 4 c(2) by simp_all
    then show ?thesis unfolding bs
      by (rule bytes_four [OF _ _ mod_64_bounds mod_64_bounds mod_64_bounds])
  qed
qed

lemma utf8_encode_range:
  "utf8_encode s = Inr bs \<Longrightarrow> list_all (\<lambda>b. 0 \<le> b \<and> b < 256) bs"
proof (induction s arbitrary: bs)
  case Nil
  then show ?case by simp
next
  case (Cons c s)
  from Cons.prems obtain b rest where c: "utf8_encode_cp c = Inr b"
    and rest: "utf8_encode s = Inr rest" and bs: "bs = b @ rest"
    by (auto split: sum.splits)
  show ?case
    by (simp add: bs utf8_encode_cp_range [OF c] Cons.IH [OF rest])
qed

section \<open>Reading a list\<close>

lemma py_index_nth:
  "0 \<le> i \<Longrightarrow> i < int (length xs) \<Longrightarrow> py_index xs i = Inr (xs ! nat i)"
  by (simp add: py_index_def)

lemma py_index_nonneg:
  "0 \<le> i \<Longrightarrow> py_index xs i = (if i < int (length xs) then Inr (xs ! nat i) else Inl IndexError)"
  by (simp add: py_index_def)

lemma py_slice_nonneg:
  assumes "0 \<le> lo" "lo \<le> hi"
  shows "py_slice xs lo hi = take (nat hi - nat lo) (drop (nat lo) xs)"
proof -
  have c: "py_clamp (length xs) lo = min (nat lo) (length xs)"
    "py_clamp (length xs) hi = min (nat hi) (length xs)"
    using assms by (simp_all add: py_clamp_def)
  show ?thesis
  proof (cases "nat lo \<le> length xs")
    case True
    then show ?thesis
      using assms by (simp add: py_slice_def c Let_def min_def)
  next
    case False
    then show ?thesis
      by (simp add: py_slice_def c Let_def)
  qed
qed

lemma py_slice_middle:
  "py_slice (pre @ x # p @ rest) (int (length pre) + 1) (int (length pre) + 1 + int (length p)) = p"
  by (simp add: py_slice_nonneg nat_add_distrib)

section \<open>One item, there and back\<close>

lemma word_of_be_bytes: "word_of_int (be_int (be_bytes 8 (uint (x :: 64 word)))) = x"
proof -
  have "uint x < 2 ^ 64" using uint_bounded [of x] by simp
  then have "uint x < 256 ^ 8" by simp
  then show ?thesis by (simp add: be_int_be_bytes del: power_numeral)
qed

lemma decode_item_int:
  "0 \<le> n \<Longrightarrow> n < 2 ^ 64 \<Longrightarrow> decode_item ''int'' l (be_bytes 8 n) = Inr (PInt n)"
proof -
  assume "0 \<le> n" "n < 2 ^ 64"
  then have "be_int (be_bytes 8 n) = n"
    by (intro be_int_be_bytes) simp_all
  then show ?thesis
    by (simp add: decode_item_def py_bytes_be_bytes struct_unpack_Q_def)
qed

lemma decode_item_float:
  "decode_item ''float'' l (be_bytes 8 (uint x)) = Inr (PFloat x)"
  by (simp add: decode_item_def py_bytes_be_bytes struct_unpack_d_def word_of_be_bytes)

lemma decode_item_str:
  "utf8_encode s = Inr bs \<Longrightarrow> decode_item ''str'' (int (length bs)) bs = Inr (PStr s)"
  by (simp add: decode_item_def py_bytes_def utf8_encode_range struct_unpack_s_def
      utf8_decode_encode)

lemma item_roundtrip:
  assumes "supported v" "encode_item v = Inr bs"
  obtains h p ty where "bs = h # p" "h \<noteq> 0" "decode_hint h = Inr (ty, int (length p))"
    "decode_item ty (int (length p)) p = Inr v"
proof (cases v)
  case (PInt n)
  with assms have n: "0 \<le> n" "n < 2 ^ 64" and bs: "bs = 72 # be_bytes 8 n"
    by (auto simp: encode_item_int)
  have "decode_hint 72 = Inr (''int'', int (length (be_bytes 8 n)))"
    using decode_encode_hint [OF encode_hint_int8] by simp
  with bs show ?thesis
    using decode_item_int [OF n] PInt by (intro that [of 72 "be_bytes 8 n" "''int''"]) simp_all
next
  case (PBool b)
  with assms show ?thesis by simp
next
  case (PFloat x)
  with assms have bs: "bs = 136 # be_bytes 8 (uint x)"
    by (auto simp: encode_item_float)
  have "decode_hint 136 = Inr (''float'', int (length (be_bytes 8 (uint x))))"
    using decode_encode_hint [OF encode_hint_float8] by simp
  with bs show ?thesis
    using decode_item_float PFloat
    by (intro that [of 136 "be_bytes 8 (uint x)" "''float''"]) simp_all
next
  case (PStr s)
  with assms obtain p where p: "utf8_encode s = Inr p" "length p \<le> 63"
    by (auto split: sum.splits)
  with assms PStr have bs: "bs = (192 + int (length p)) # p"
    by (simp add: encode_item_str)
  have "encode_hint ''str'' (int (length p)) = Inr (192 + int (length p))"
    using p by (simp add: encode_hint_str)
  then have "decode_hint (192 + int (length p)) = Inr (''str'', int (length p))"
    by (rule decode_encode_hint)
  with bs show ?thesis
    using decode_item_str [OF p(1)] PStr
    by (intro that [of "192 + int (length p)" p "''str''"]) simp_all
next
  case PNone
  with assms show ?thesis by simp
qed

section \<open>Scanning what \<open>encode_record\<close> wrote\<close>

lemma decode_loop_padding:
  assumes "length (pre @ replicate k 0) = 256"
  shows "decode_loop (pre @ replicate k 0) (int (length pre)) acc = Inr (int (length pre), acc)"
proof (cases "length pre < 256")
  case True
  with assms have "0 < k" by simp
  then have "(pre @ replicate k 0) ! length pre = 0"
    by (simp add: nth_append)
  with True assms show ?thesis
    by (subst decode_loop.simps) (simp add: py_index_nonneg)
next
  case False
  then show ?thesis
    by (subst decode_loop.simps) simp
qed

lemma decode_loop_step:
  assumes v: "supported v" "encode_item v = Inr bs"
    and len: "length (pre @ bs @ rest) = 256"
  shows "decode_loop (pre @ bs @ rest) (int (length pre)) acc
    = decode_loop (pre @ bs @ rest) (int (length (pre @ bs))) (acc @ [v])"
proof -
  from v obtain h p ty where bs: "bs = h # p" and h: "h \<noteq> 0"
    and hint: "decode_hint h = Inr (ty, int (length p))"
    and item: "decode_item ty (int (length p)) p = Inr v"
    by (rule item_roundtrip)
  have i: "length pre < 256" using len bs by simp
  have idx: "py_index (pre @ bs @ rest) (int (length pre)) = Inr h"
    using len by (simp add: py_index_nonneg bs)
  have sl: "py_slice (pre @ bs @ rest) (int (length pre) + 1)
      (int (length pre) + 1 + int (length p)) = p"
    unfolding bs using py_slice_middle [of pre h p rest] by simp
  have "int (length pre) + (int (length p) + 1) = int (length (pre @ bs))"
    by (simp add: bs)
  then show ?thesis
    by (subst decode_loop.simps) (simp add: i idx h hint sl item)
qed

lemma decode_loop_encoded:
  assumes "list_all supported vs"
    and "list_all2 (\<lambda>v bs. encode_item v = Inr bs) vs bss"
    and "length (pre @ concat bss @ replicate k 0) = 256"
  shows "decode_loop (pre @ concat bss @ replicate k 0) (int (length pre)) acc
    = Inr (int (length (pre @ concat bss)), acc @ vs)"
  using assms
proof (induction vs arbitrary: bss pre acc)
  case Nil
  then show ?case
    using decode_loop_padding [of pre k acc] by simp
next
  case (Cons v vs)
  from Cons.prems(2) obtain bs rest where bss: "bss = bs # rest" and v: "encode_item v = Inr bs"
    and rest: "list_all2 (\<lambda>v bs. encode_item v = Inr bs) vs rest"
    by (auto simp: list_all2_Cons1)
  from Cons.prems(1) have sv: "supported v" and svs: "list_all supported vs"
    by simp_all
  have len: "length (pre @ bs @ concat rest @ replicate k 0) = 256"
    using Cons.prems(3) by (simp add: bss)
  have len': "length ((pre @ bs) @ concat rest @ replicate k 0) = 256"
    using len by simp
  have "decode_loop (pre @ concat bss @ replicate k 0) (int (length pre)) acc
      = decode_loop (pre @ bs @ concat rest @ replicate k 0) (int (length (pre @ bs))) (acc @ [v])"
    using decode_loop_step [OF sv v len, of acc] by (simp add: bss)
  also have "\<dots> = Inr (int (length ((pre @ bs) @ concat rest)), (acc @ [v]) @ vs)"
    using Cons.IH [OF svs rest len', of "acc @ [v]"] by simp
  finally show ?case by (simp add: bss)
qed

lemma record_roundtrip:
  assumes "list_all supported vs"
    and "list_all2 (\<lambda>v bs. encode_item v = Inr bs) vs bss"
    and "length (concat bss) \<le> 256"
  shows "encode_record vs = Inr (concat bss @ replicate (256 - length (concat bss)) 0)"
    and "decode_loop (concat bss @ replicate (256 - length (concat bss)) 0) 0 []
      = Inr (int (length (concat bss)), vs)"
    and "decode_record (concat bss @ replicate (256 - length (concat bss)) 0) = Inr vs"
proof -
  let ?buf = "concat bss @ replicate (256 - length (concat bss)) 0"
  show "encode_record vs = Inr ?buf"
    using assms(3) by (simp add: encode_record_concat [OF assms(2)])
  have len: "length ([] @ ?buf) = 256" using assms(3) by simp
  show loop: "decode_loop ?buf 0 [] = Inr (int (length (concat bss)), vs)"
    using decode_loop_encoded [OF assms(1,2) len, of "[]"] by simp
  show "decode_record ?buf = Inr vs"
    using assms(3) by (simp add: decode_record_def loop)
qed

lemma supported_encodes: "supported v \<Longrightarrow> \<exists>bs. encode_item v = Inr bs"
  by (cases v) (auto simp: encode_item_eqs split: sum.splits)

lemma supported_all_encode:
  "list_all supported vs \<Longrightarrow> \<exists>bss. list_all2 (\<lambda>v bs. encode_item v = Inr bs) vs bss"
proof (induction vs)
  case Nil
  then show ?case by simp
next
  case (Cons v vs)
  then obtain bs bss where "encode_item v = Inr bs"
    "list_all2 (\<lambda>v bs. encode_item v = Inr bs) vs bss"
    using supported_encodes [of v] by auto
  then have "list_all2 (\<lambda>v bs. encode_item v = Inr bs) (v # vs) (bs # bss)" by simp
  then show ?case by blast
qed


lemma encoded_size_length:
  "supported v \<Longrightarrow> encode_item v = Inr bs \<Longrightarrow> length bs = encoded_size v"
  by (cases v) (auto simp: encode_item_eqs split: sum.splits if_splits)

lemma encoded_size_concat:
  assumes "list_all supported vs" "list_all2 (\<lambda>v bs. encode_item v = Inr bs) vs bss"
  shows "length (concat bss) = sum_list (map encoded_size vs)"
  using assms(2,1)
  by (induction rule: list_all2_induct) (simp_all add: encoded_size_length)

section \<open>Round trip of a record\<close>

lemma record_round_trip_module:
  "list_all supported R \<and> sum_list (map encoded_size R) \<le> 256 \<longrightarrow>
     (\<exists>buf. encode_record R = Inr buf \<and> length buf = 256 \<and> decode_record buf = Inr R)"
proof (intro impI, elim conjE)
  assume R: "list_all supported R" and size: "sum_list (map encoded_size R) \<le> 256"
  from supported_all_encode [OF R] obtain bss
    where bss: "list_all2 (\<lambda>v bs. encode_item v = Inr bs) R bss"
    by blast
  have len: "length (concat bss) \<le> 256"
    using size by (simp add: encoded_size_concat [OF R bss])
  let ?buf = "concat bss @ replicate (256 - length (concat bss)) 0"
  have "encode_record R = Inr ?buf" "decode_record ?buf = Inr R"
    by (rule record_roundtrip [OF R bss len])+
  moreover have "length ?buf = 256" using len by simp
  ultimately show "\<exists>buf. encode_record R = Inr buf \<and> length buf = 256 \<and> decode_record buf = Inr R"
    by blast
qed

text \<open>
  Claim C1. For every row of supported values (integers from 0 to \<open>2 ^ 64 - 1\<close>, floats,
  strings of at most 63 UTF-8 bytes) whose encoded sizes add up to at most 256,
  \<open>encode_record\<close> succeeds and \<open>decode_record\<close> of its result is the row itself, element for
  element and in order; a float comes back with the same 64 bits.
  The same holds of the methods of the class \<open>U8Encoder\<close> in \<^verbatim>\<open>u8_encode.py\<close>.
\<close>

theorem record_round_trip:
  "(list_all supported R \<and> sum_list (map encoded_size R) \<le> 256 \<longrightarrow>
     (\<exists>buf. encode_record R = Inr buf \<and> length buf = 256 \<and> decode_record buf = Inr R)) \<and>
   (list_all supported R \<and> sum_list (map encoded_size R) \<le> 256 \<longrightarrow>
     (\<exists>buf. U8Encoder_encode_record R = Inr buf \<and> length buf = 256 \<and> U8Encoder_decode_record buf = Inr R))"
  unfolding U8Encoder_encode_hint_eq U8Encoder_decode_hint_eq U8Encoder_encode_item_eq
    U8Encoder_decode_item_eq U8Encoder_encode_record_eq U8Encoder_decode_record_eq
    U8Encoder_decode_loop_eq
  by (rule conjI [OF record_round_trip_module record_round_trip_module])

theorem record_round_trip_witness:
  "list_all supported [PInt 42, PFloat 0x40091EB851EB851F, PStr [104, 105]] \<and>
   sum_list (map encoded_size [PInt 42, PFloat 0x40091EB851EB851F, PStr [104, 105]]) = 21 \<and>
   (\<exists>buf. encode_record [PInt 42, PFloat 0x40091EB851EB851F, PStr [104, 105]] = Inr buf \<and>
      length buf = 256 \<and>
      decode_record buf = Inr [PInt 42, PFloat 0x40091EB851EB851F, PStr [104, 105]])"
  using record_round_trip [of "[PInt 42, PFloat 0x40091EB851EB851F, PStr [104, 105]]", THEN conjunct1]
  by (simp add: utf8_encode_cp_def)

section \<open>The scan of any buffer\<close>

lemma utf8_cons_Inl: "utf8_cons c r = Inl e \<Longrightarrow> r = Inl e"
  by (simp add: utf8_cons_def split: sum.splits)

lemma utf8_decode_Inl: "utf8_decode bs = Inl e \<Longrightarrow> e = UnicodeDecodeError"
proof (induction bs rule: utf8_decode.induct)
  case 1
  then show ?case by simp
next
  case (2 b0 bs)
  show ?case
  proof (rule ccontr)
    assume ne: "e \<noteq> UnicodeDecodeError"
    from "2.prems" ne "2.IH" show False
      by (auto simp: Let_def split: if_splits list.splits dest!: utf8_cons_Inl)
  qed
qed

lemma decode_item_Inl:
  "decode_item ty n bs = Inl e \<Longrightarrow>
     e \<in> {BytesOutOfRange, StructError, UnicodeDecodeError, UnknownItemType}"
  by (auto simp: decode_item_def py_bytes_def struct_unpack_Q_def struct_unpack_d_def
      struct_unpack_s_def split: if_splits sum.splits dest: utf8_decode_Inl)

lemma decode_hint_Inl: "decode_hint b = Inl e \<Longrightarrow> \<exists>k. e = UnknownTypeCode k"
  by (auto simp: decode_hint_def Let_def split: option.splits)

text \<open>One iteration of the loop on a buffer of 256 elements, spelt out.\<close>

lemma decode_loop_unfold:
  assumes "length buf = 256" "0 \<le> i"
  shows "decode_loop buf i acc =
    (if 256 \<le> i then Inr (i, acc)
     else if buf ! nat i = 0 then Inr (i, acc)
     else case decode_hint (buf ! nat i) of
       Inl e \<Rightarrow> Inl e
     | Inr (ty, n) \<Rightarrow>
         (case decode_item ty n (py_slice buf (i + 1) (i + 1 + n)) of
            Inl e \<Rightarrow> Inl e
          | Inr v \<Rightarrow> decode_loop buf (i + (n + 1)) (acc @ [v])))"
  using assms by (subst decode_loop.simps) (simp add: py_index_nonneg)

lemma decode_loop_no_IndexError:
  "length buf = 256 \<Longrightarrow> 0 \<le> i \<Longrightarrow> decode_loop buf i acc \<noteq> Inl IndexError"
proof (induction buf i acc rule: decode_loop.induct)
  case (1 buf i acc)
  note unf = decode_loop_unfold [OF "1.prems", of acc]
  show ?case
  proof (cases "256 \<le> i \<or> buf ! nat i = 0")
    case True
    then show ?thesis by (auto simp: unf)
  next
    case False
    then have i: "i < 256" and b: "buf ! nat i \<noteq> 0" by auto
    have idx: "py_index buf i = Inr (buf ! nat i)"
      using i "1.prems" by (simp add: py_index_nonneg)
    show ?thesis
    proof (cases "decode_hint (buf ! nat i)")
      case (Inl e)
      with False decode_hint_Inl [OF Inl] show ?thesis by (auto simp: unf)
    next
      case (Inr tn)
      obtain ty n where tn: "tn = (ty, n)" by (cases tn)
      have n: "0 \<le> n" using Inr tn decode_hint_len by blast
      show ?thesis
      proof (cases "decode_item ty n (py_slice buf (i + 1) (i + 1 + n))")
        case (Inl e)
        with False Inr tn decode_item_Inl [OF Inl] show ?thesis by (auto simp: unf)
      next
        case item: (Inr v)
        have "decode_loop buf (i + (n + 1)) (acc @ [v]) \<noteq> Inl IndexError"
          using "1.IH" [OF i idx b Inr tn [symmetric] item] "1.prems" n by simp
        with False Inr tn item show ?thesis by (simp add: unf)
      qed
    qed
  qed
qed

lemma decode_loop_exit:
  "length buf = 256 \<Longrightarrow> 0 \<le> i \<Longrightarrow> decode_loop buf i acc = Inr (j, items) \<Longrightarrow>
     i \<le> j \<and> (256 \<le> j \<or> buf ! nat j = 0)"
proof (induction buf i acc rule: decode_loop.induct)
  case (1 buf i acc)
  note unf = decode_loop_unfold [OF "1.prems"(1,2), of acc]
  show ?case
  proof (cases "256 \<le> i \<or> buf ! nat i = 0")
    case True
    with "1.prems"(3) show ?thesis by (auto simp: unf split: if_splits)
  next
    case False
    then have i: "i < 256" and b: "buf ! nat i \<noteq> 0" by auto
    have idx: "py_index buf i = Inr (buf ! nat i)"
      using i "1.prems" by (simp add: py_index_nonneg)
    from "1.prems"(3) False obtain ty n v where hint: "decode_hint (buf ! nat i) = Inr (ty, n)"
      and item: "decode_item ty n (py_slice buf (i + 1) (i + 1 + n)) = Inr v"
      and rest: "decode_loop buf (i + (n + 1)) (acc @ [v]) = Inr (j, items)"
      by (auto simp: unf split: sum.splits)
    have n: "0 \<le> n" using hint decode_hint_len by blast
    have "i + (n + 1) \<le> j \<and> (256 \<le> j \<or> buf ! nat j = 0)"
      using "1.IH" [OF i idx b hint refl item "1.prems"(1) _ rest] "1.prems"(2) n by simp
    with n show ?thesis by simp
  qed
qed


lemma decode_loop_continue:
  assumes "length buf = 256" "0 \<le> i" "i < 256" "buf ! nat i \<noteq> 0"
    and "decode_hint (buf ! nat i) = Inr (ty, n)"
    and "decode_item ty n (py_slice buf (i + 1) (i + 1 + n)) = Inr v"
  shows "decode_loop buf i acc = decode_loop buf (i + (n + 1)) (acc @ [v])"
  using assms(3-) by (simp add: decode_loop_unfold [OF assms(1,2)])

section \<open>The scan stays inside the record\<close>

text \<open>
  The offset may pass 256 without landing on it. \<^verbatim>\<open>decode_item\<close> ignores \<^verbatim>\<open>item_len\<close> for an
  integer: a hint byte at offset 247 that announces an integer of 20 bytes is followed by
  a slice of the 8 bytes that are left, which \<^verbatim>\<open>struct.unpack(">Q", ...)\<close> accepts, and the
  offset moves to 268. No element beyond the buffer is read.
\<close>

lemma scan_passes_256:
  "length (concat (replicate 3 (255 # replicate 63 97)) @ (246 # replicate 54 97) @
      (84 # replicate 8 (1::int))) = 256 \<and>
   decode_loop
     (concat (replicate 3 (255 # replicate 63 97)) @ (246 # replicate 54 97) @
        (84 # replicate 8 1)) 0 []
   = Inr (268, [PStr (replicate 63 97), PStr (replicate 63 97), PStr (replicate 63 97),
        PStr (replicate 54 97), PInt 72340172838076673])"
  by code_simp

lemma decode_loop_stops_iff:
  assumes "length buf = 256" "0 \<le> i"
  shows "decode_loop buf i acc = Inr (i, acc) \<longleftrightarrow> 256 \<le> i \<or> buf ! nat i = 0"
proof
  assume "256 \<le> i \<or> buf ! nat i = 0"
  then show "decode_loop buf i acc = Inr (i, acc)"
    by (auto simp: decode_loop_unfold [OF assms])
next
  assume r: "decode_loop buf i acc = Inr (i, acc)"
  show "256 \<le> i \<or> buf ! nat i = 0"
  proof (rule ccontr)
    assume "\<not> (256 \<le> i \<or> buf ! nat i = 0)"
    then have i: "i < 256" and b: "buf ! nat i \<noteq> 0" by auto
    from r i b obtain ty n v where hint: "decode_hint (buf ! nat i) = Inr (ty, n)"
      and rest: "decode_loop buf (i + (n + 1)) (acc @ [v]) = Inr (i, acc)"
      by (auto simp: decode_loop_unfold [OF assms] split: sum.splits)
    have n: "0 \<le> n" using hint decode_hint_len by blast
    then have "0 \<le> i + (n + 1)" using assms(2) by simp
    from decode_loop_exit [OF assms(1) this rest] n show False by simp
  qed
qed

lemma decode_loop_raises:
  assumes "length buf = 256" "0 \<le> i" "i < 256" "buf ! nat i \<noteq> 0"
  shows "decode_hint (buf ! nat i) = Inl e \<Longrightarrow> decode_loop buf i acc = Inl e"
    and "decode_hint (buf ! nat i) = Inr (ty, n) \<Longrightarrow>
      decode_item ty n (py_slice buf (i + 1) (i + 1 + n)) = Inl e \<Longrightarrow>
      decode_loop buf i acc = Inl e"
  using assms(3,4) by (simp_all add: decode_loop_unfold [OF assms(1,2)])

lemma decode_record_scan_module:
  "(length buf = 256 \<longrightarrow>
      decode_loop buf 0 [] \<noteq> Inl IndexError \<and> decode_record buf \<noteq> Inl IndexError \<and>
      (decode_loop buf 0 [] = Inr (j, items) \<longrightarrow>
         0 \<le> j \<and> (256 \<le> j \<or> buf ! nat j = 0) \<and> decode_record buf = Inr items) \<and>
      (decode_loop buf 0 [] = Inl e \<longrightarrow> decode_record buf = Inl e) \<and>
      (0 \<le> i \<longrightarrow>
         (decode_loop buf i acc = Inr (i, acc) \<longleftrightarrow> 256 \<le> i \<or> buf ! nat i = 0)) \<and>
      (0 \<le> i \<and> i < 256 \<and> buf ! nat i \<noteq> 0 \<and> decode_hint (buf ! nat i) = Inl e \<longrightarrow>
         decode_loop buf i acc = Inl e) \<and>
      (0 \<le> i \<and> i < 256 \<and> buf ! nat i \<noteq> 0 \<and> decode_hint (buf ! nat i) = Inr (ty, n) \<and>
       decode_item ty n (py_slice buf (i + 1) (i + 1 + n)) = Inl e \<longrightarrow>
         decode_loop buf i acc = Inl e) \<and>
      (0 \<le> i \<and> i < 256 \<and> buf ! nat i \<noteq> 0 \<and> decode_hint (buf ! nat i) = Inr (ty, n) \<and>
       decode_item ty n (py_slice buf (i + 1) (i + 1 + n)) = Inr v \<longrightarrow>
         decode_loop buf i acc = decode_loop buf (i + (n + 1)) (acc @ [v]) \<and>
         i + 1 \<le> i + (n + 1))) \<and>
   (list_all supported R \<and> sum_list (map encoded_size R) = 256 \<longrightarrow>
      (\<exists>full. encode_record R = Inr full \<and> length full = 256 \<and>
         decode_loop full 0 [] = Inr (256, R) \<and> decode_record full = Inr R))"
proof (intro conjI impI)
  assume len: "length buf = 256"
  show a: "decode_loop buf 0 [] \<noteq> Inl IndexError"
    using len by (rule decode_loop_no_IndexError) simp
  show "decode_record buf \<noteq> Inl IndexError"
    using a len by (auto simp: decode_record_def split: sum.splits)
  {
    assume r: "decode_loop buf 0 [] = Inr (j, items)"
    from decode_loop_exit [OF len _ r]
    show "0 \<le> j" and "256 \<le> j \<or> buf ! nat j = 0" by simp_all
    show "decode_record buf = Inr items"
      using len r by (simp add: decode_record_def)
  }
  {
    assume "decode_loop buf 0 [] = Inl e"
    then show "decode_record buf = Inl e"
      using len by (simp add: decode_record_def)
  }
  {
    assume "0 \<le> i"
    with len show "decode_loop buf i acc = Inr (i, acc) \<longleftrightarrow> 256 \<le> i \<or> buf ! nat i = 0"
      by (rule decode_loop_stops_iff)
  }
  {
    assume "0 \<le> i \<and> i < 256 \<and> buf ! nat i \<noteq> 0 \<and> decode_hint (buf ! nat i) = Inl e"
    then show "decode_loop buf i acc = Inl e"
      using decode_loop_raises(1) [OF len] by blast
  }
  {
    assume "0 \<le> i \<and> i < 256 \<and> buf ! nat i \<noteq> 0 \<and> decode_hint (buf ! nat i) = Inr (ty, n) \<and>
       decode_item ty n (py_slice buf (i + 1) (i + 1 + n)) = Inl e"
    then show "decode_loop buf i acc = Inl e"
      using decode_loop_raises(2) [OF len] by blast
  }
  {
    assume s: "0 \<le> i \<and> i < 256 \<and> buf ! nat i \<noteq> 0 \<and> decode_hint (buf ! nat i) = Inr (ty, n) \<and>
       decode_item ty n (py_slice buf (i + 1) (i + 1 + n)) = Inr v"
    then show "decode_loop buf i acc = decode_loop buf (i + (n + 1)) (acc @ [v])"
      using decode_loop_continue [OF len] by blast
    from s have "0 \<le> n" using decode_hint_len by blast
    then show "i + 1 \<le> i + (n + 1)" by simp
  }
next
  assume "list_all supported R \<and> sum_list (map encoded_size R) = 256"
  then have R: "list_all supported R" and size: "sum_list (map encoded_size R) = 256"
    by simp_all
  from supported_all_encode [OF R] obtain bss
    where bss: "list_all2 (\<lambda>v bs. encode_item v = Inr bs) R bss"
    by blast
  have len: "length (concat bss) = 256"
    using size by (simp add: encoded_size_concat [OF R bss])
  then have le: "length (concat bss) \<le> 256" by simp
  from record_roundtrip [OF R bss le]
  have "encode_record R = Inr (concat bss)" "decode_loop (concat bss) 0 [] = Inr (256, R)"
    "decode_record (concat bss) = Inr R"
    by (simp_all add: len)
  with len show "\<exists>full. encode_record R = Inr full \<and> length full = 256 \<and>
      decode_loop full 0 [] = Inr (256, R) \<and> decode_record full = Inr R"
    by blast
qed

text \<open>
  Claim C9. \<open>decode_loop\<close> is a total function: its termination proof is the measure
  \<open>256 - i\<close>, which every iteration decreases, since the offset grows by \<open>item_len + 1\<close> and
  \<open>item_len\<close> is never negative. On a buffer of 256 elements no read is out of range: the
  call never ends in \<open>IndexError\<close>. At every offset the loop does one of four things, and
  which one is decided as follows. It exits there, with the items decoded so far, exactly
  when the offset is 256 or more or the element at the offset is the sentinel 0.
  Otherwise it raises the error of \<open>decode_hint\<close>, or the error of \<open>decode_item\<close>, or it
  decodes an item and goes on at an offset that is greater by at least 1. So a scan that
  returns has stopped at a sentinel or at an offset of 256 or more, and what it returns or
  raises is what \<open>decode_record\<close> returns or raises. A row of supported values whose
  encodings fill all 256 bytes decodes to itself, and the scan stops at offset 256.
  The same holds of the methods of the class \<open>U8Encoder\<close> in \<^verbatim>\<open>u8_encode.py\<close>.
\<close>

theorem decode_record_scan:
  "((length buf = 256 \<longrightarrow>
      decode_loop buf 0 [] \<noteq> Inl IndexError \<and> decode_record buf \<noteq> Inl IndexError \<and>
      (decode_loop buf 0 [] = Inr (j, items) \<longrightarrow>
         0 \<le> j \<and> (256 \<le> j \<or> buf ! nat j = 0) \<and> decode_record buf = Inr items) \<and>
      (decode_loop buf 0 [] = Inl e \<longrightarrow> decode_record buf = Inl e) \<and>
      (0 \<le> i \<longrightarrow>
         (decode_loop buf i acc = Inr (i, acc) \<longleftrightarrow> 256 \<le> i \<or> buf ! nat i = 0)) \<and>
      (0 \<le> i \<and> i < 256 \<and> buf ! nat i \<noteq> 0 \<and> decode_hint (buf ! nat i) = Inl e \<longrightarrow>
         decode_loop buf i acc = Inl e) \<and>
      (0 \<le> i \<and> i < 256 \<and> buf ! nat i \<noteq> 0 \<and> decode_hint (buf ! nat i) = Inr (ty, n) \<and>
       decode_item ty n (py_slice buf (i + 1) (i + 1 + n)) = Inl e \<longrightarrow>
         decode_loop buf i acc = Inl e) \<and>
      (0 \<le> i \<and> i < 256 \<and> buf ! nat i \<noteq> 0 \<and> decode_hint (buf ! nat i) = Inr (ty, n) \<and>
       decode_item ty n (py_slice buf (i + 1) (i + 1 + n)) = Inr v \<longrightarrow>
         decode_loop buf i acc = decode_loop buf (i + (n + 1)) (acc @ [v]) \<and>
         i + 1 \<le> i + (n + 1))) \<and>
   (list_all supported R \<and> sum_list (map encoded_size R) = 256 \<longrightarrow>
      (\<exists>full. encode_record R = Inr full \<and> length full = 256 \<and>
         decode_loop full 0 [] = Inr (256, R) \<and> decode_record full = Inr R))) \<and>
   ((length buf = 256 \<longrightarrow>
      U8Encoder_decode_loop buf 0 [] \<noteq> Inl IndexError \<and> U8Encoder_decode_record buf \<noteq> Inl IndexError \<and>
      (U8Encoder_decode_loop buf 0 [] = Inr (j, items) \<longrightarrow>
         0 \<le> j \<and> (256 \<le> j \<or> buf ! nat j = 0) \<and> U8Encoder_decode_record buf = Inr items) \<and>
      (U8Encoder_decode_loop buf 0 [] = Inl e \<longrightarrow> U8Encoder_decode_record buf = Inl e) \<and>
      (0 \<le> i \<longrightarrow>
         (U8Encoder_decode_loop buf i acc = Inr (i, acc) \<longleftrightarrow> 256 \<le> i \<or> buf ! nat i = 0)) \<and>
      (0 \<le> i \<and> i < 256 \<and> buf ! nat i \<noteq> 0 \<and> U8Encoder_decode_hint (buf ! nat i) = Inl e \<longrightarrow>
         U8Encoder_decode_loop buf i acc = Inl e) \<and>
      (0 \<le> i \<and> i < 256 \<and> buf ! nat i \<noteq> 0 \<and> U8Encoder_decode_hint (buf ! nat i) = Inr (ty, n) \<and>
       U8Encoder_decode_item ty n (py_slice buf (i + 1) (i + 1 + n)) = Inl e \<longrightarrow>
         U8Encoder_decode_loop buf i acc = Inl e) \<and>
      (0 \<le> i \<and> i < 256 \<and> buf ! nat i \<noteq> 0 \<and> U8Encoder_decode_hint (buf ! nat i) = Inr (ty, n) \<and>
       U8Encoder_decode_item ty n (py_slice buf (i + 1) (i + 1 + n)) = Inr v \<longrightarrow>
         U8Encoder_decode_loop buf i acc = U8Encoder_decode_loop buf (i + (n + 1)) (acc @ [v]) \<and>
         i + 1 \<le> i + (n + 1))) \<and>
   (list_all supported R \<and> sum_list (map encoded_size R) = 256 \<longrightarrow>
      (\<exists>full. U8Encoder_encode_record R = Inr full \<and> length full = 256 \<and>
         U8Encoder_decode_loop full 0 [] = Inr (256, R) \<and> U8Encoder_decode_record full = Inr R)))"
  unfolding U8Encoder_encode_hint_eq U8Encoder_decode_hint_eq U8Encoder_encode_item_eq
    U8Encoder_decode_item_eq U8Encoder_encode_record_eq U8Encoder_decode_record_eq
    U8Encoder_decode_loop_eq
  by (rule conjI [OF decode_record_scan_module decode_record_scan_module])

theorem decode_record_scan_witness:
  "length ([72, 0, 0, 0, 0, 0, 0, 0, 42] @ replicate 247 (0::int)) = 256 \<and>
   decode_loop ([72, 0, 0, 0, 0, 0, 0, 0, 42] @ replicate 247 0) 0 [] = Inr (9, [PInt 42]) \<and>
   ([72, 0, 0, 0, 0, 0, 0, 0, 42] @ replicate 247 (0::int)) ! nat 9 = 0 \<and>
   decode_record ([72, 0, 0, 0, 0, 0, 0, 0, 42] @ replicate 247 0) = Inr [PInt 42] \<and>
   decode_loop ([72, 0, 0, 0, 0, 0, 0, 0, 42] @ replicate 247 0) 9 [PInt 42]
     = Inr (9, [PInt 42]) \<and>
   decode_loop ([72, 0, 0, 0, 0, 0, 0, 0, 42] @ replicate 247 0) 256 [PInt 42]
     = Inr (256, [PInt 42]) \<and>
   decode_loop ([72, 0, 0, 0, 0, 0, 0, 0, 42] @ replicate 247 0) 0 [] \<noteq> Inr (0, []) \<and>
   decode_hint (([72, 0, 0, 0, 0, 0, 0, 0, 42] @ replicate 247 0) ! nat 0) = Inr (''int'', 8) \<and>
   decode_item ''int'' 8
     (py_slice ([72, 0, 0, 0, 0, 0, 0, 0, 42] @ replicate 247 0) (0 + 1) (0 + 1 + 8))
     = Inr (PInt 42) \<and>
   decode_loop ([72, 0, 0, 0, 0, 0, 0, 0, 42] @ replicate 247 0) 0 []
     = decode_loop ([72, 0, 0, 0, 0, 0, 0, 0, 42] @ replicate 247 0) (0 + (8 + 1)) ([] @ [PInt 42]) \<and>
   decode_hint (replicate 256 (1::int) ! nat 0) = Inl (UnknownTypeCode 0) \<and>
   decode_loop (replicate 256 1) 0 [] = Inl (UnknownTypeCode 0) \<and>
   decode_record (replicate 256 1) = Inl (UnknownTypeCode 0) \<and>
   decode_item ''int'' 8 (py_slice (replicate 250 0 @ [72, 0, 0, 0, 0, 0]) (250 + 1) (250 + 1 + 8))
     = Inl StructError \<and>
   decode_loop (replicate 250 0 @ [72, 0, 0, 0, 0, 0]) 250 [] = Inl StructError \<and>
   U8Encoder_decode_loop ([72, 0, 0, 0, 0, 0, 0, 0, 42] @ replicate 247 0) 0 []
     = Inr (9, [PInt 42]) \<and>
   U8Encoder_decode_record ([72, 0, 0, 0, 0, 0, 0, 0, 42] @ replicate 247 0) = Inr [PInt 42] \<and>
   U8Encoder_decode_loop ([72, 0, 0, 0, 0, 0, 0, 0, 42] @ replicate 247 0) 9 [PInt 42]
     = Inr (9, [PInt 42]) \<and>
   U8Encoder_decode_loop (replicate 256 1) 0 [] = Inl (UnknownTypeCode 0) \<and>
   list_all supported (replicate 28 (PInt 42) @ [PStr [97, 98, 99]]) \<and>
   sum_list (map encoded_size (replicate 28 (PInt 42) @ [PStr [97, 98, 99]])) = 256 \<and>
   (\<exists>full. encode_record (replicate 28 (PInt 42) @ [PStr [97, 98, 99]]) = Inr full \<and>
      length full = 256 \<and>
      decode_loop full 0 [] = Inr (256, replicate 28 (PInt 42) @ [PStr [97, 98, 99]]) \<and>
      decode_record full = Inr (replicate 28 (PInt 42) @ [PStr [97, 98, 99]]))"
proof -
  let ?buf = "[72, 0, 0, 0, 0, 0, 0, 0, 42] @ replicate 247 (0::int)"
  let ?bad = "replicate 256 (1::int)"
  let ?cut = "replicate 250 0 @ [72, 0, 0, 0, 0, 0 :: int]"
  let ?R = "replicate 28 (PInt 42) @ [PStr [97, 98, 99]]"
  have len: "length ?buf = 256" "length ?bad = 256" "length ?cut = 256" by simp_all
  have enc: "list_all2 (\<lambda>v bs. encode_item v = Inr bs) [PInt 42] [[72, 0, 0, 0, 0, 0, 0, 0, 42]]"
    by (simp add: encode_item_int be_bytes_8)
  have loop: "decode_loop ?buf 0 [] = Inr (9, [PInt 42])"
    using record_roundtrip(2) [OF _ enc] by simp
  have loop': "U8Encoder_decode_loop ?buf 0 [] = Inr (9, [PInt 42])"
    using loop by (simp only: U8Encoder_decode_loop_eq)
  have hint: "decode_hint (?buf ! nat 0) = Inr (''int'', 8)"
    using decode_encode_hint [OF encode_hint_int8] by simp
  have first: "?buf ! nat 0 \<noteq> 0" by simp
  have ninth: "?buf ! nat 9 = 0" by code_simp
  have item: "decode_item ''int'' 8 (py_slice ?buf (0 + 1) (0 + 1 + 8)) = Inr (PInt 42)"
    by (simp add: py_slice_nonneg decode_item_def py_bytes_def struct_unpack_Q_def be_int_def)
  have step: "(0::int) \<le> 0 \<and> (0::int) < 256 \<and> ?buf ! nat 0 \<noteq> 0 \<and>
      decode_hint (?buf ! nat 0) = Inr (''int'', 8) \<and>
      decode_item ''int'' 8 (py_slice ?buf (0 + 1) (0 + 1 + 8)) = Inr (PInt 42)"
    using first hint item by simp
  have bad0: "?bad ! nat 0 \<noteq> 0" by simp
  have badh: "decode_hint (?bad ! nat 0) = Inl (UnknownTypeCode 0)" by code_simp
  have badh': "U8Encoder_decode_hint (?bad ! nat 0) = Inl (UnknownTypeCode 0)"
    using badh by (simp only: U8Encoder_decode_hint_eq)
  have cut0: "?cut ! nat 250 \<noteq> 0" by code_simp
  have cuth: "decode_hint (?cut ! nat 250) = Inr (''int'', 8)" by code_simp
  have cuti: "decode_item ''int'' 8 (py_slice ?cut (250 + 1) (250 + 1 + 8)) = Inl StructError"
    by code_simp
  have R: "list_all supported ?R \<and> sum_list (map encoded_size ?R) = 256"
    by (simp add: utf8_encode_cp_def sum_list_replicate list_all_iff)
  note T = decode_record_scan [where buf = ?buf and j = 9 and items = "[PInt 42]" and i = 0
      and ty = "''int''" and n = 8 and v = "PInt 42" and acc = "[]" and R = ?R]
  note M = T [THEN conjunct1, THEN conjunct1, rule_format, OF len(1)]
  from M loop have 4: "decode_record ?buf = Inr [PInt 42]"
    by blast
  from M have "decode_loop ?buf 0 [] = Inr (0, []) \<longleftrightarrow> 256 \<le> (0::int) \<or> ?buf ! nat 0 = 0"
    by blast
  with first have 5: "decode_loop ?buf 0 [] \<noteq> Inr (0, [])"
    by simp
  from M step have 2: "decode_loop ?buf 0 [] = decode_loop ?buf (0 + (8 + 1)) ([] @ [PInt 42])"
    by blast
  from T [THEN conjunct1, THEN conjunct2] R
  have 3: "\<exists>full. encode_record ?R = Inr full \<and> length full = 256 \<and>
      decode_loop full 0 [] = Inr (256, ?R) \<and> decode_record full = Inr ?R"
    by blast
  note S = decode_record_scan [where buf = ?buf and i = 9 and acc = "[PInt 42]",
      THEN conjunct1, THEN conjunct1, rule_format, OF len(1)]
  from S ninth have 6: "decode_loop ?buf 9 [PInt 42] = Inr (9, [PInt 42])"
    by simp
  note E = decode_record_scan [where buf = ?buf and i = 256 and acc = "[PInt 42]",
      THEN conjunct1, THEN conjunct1, rule_format, OF len(1)]
  from E have 7: "decode_loop ?buf 256 [PInt 42] = Inr (256, [PInt 42])"
    by simp
  note B = decode_record_scan [where buf = ?bad and i = 0 and acc = "[]"
      and e = "UnknownTypeCode 0", THEN conjunct1, THEN conjunct1, rule_format, OF len(2)]
  from B bad0 badh have 8: "decode_loop ?bad 0 [] = Inl (UnknownTypeCode 0)"
    by simp
  from B 8 have 9: "decode_record ?bad = Inl (UnknownTypeCode 0)"
    by blast
  note K = decode_record_scan [where buf = ?cut and i = 250 and acc = "[]"
      and e = StructError and ty = "''int''" and n = 8,
      THEN conjunct1, THEN conjunct1, rule_format, OF len(3)]
  from K cut0 cuth cuti have 10: "decode_loop ?cut 250 [] = Inl StructError"
    by simp
  note C = T [THEN conjunct2, THEN conjunct1, rule_format, OF len(1)]
  from C loop' have 11: "U8Encoder_decode_record ?buf = Inr [PInt 42]"
    by blast
  note CS = decode_record_scan [where buf = ?buf and i = 9 and acc = "[PInt 42]",
      THEN conjunct2, THEN conjunct1, rule_format, OF len(1)]
  from CS ninth have 12: "U8Encoder_decode_loop ?buf 9 [PInt 42] = Inr (9, [PInt 42])"
    by simp
  note CB = decode_record_scan [where buf = ?bad and i = 0 and acc = "[]"
      and e = "UnknownTypeCode 0", THEN conjunct2, THEN conjunct1, rule_format, OF len(2)]
  from CB bad0 badh' have 13: "U8Encoder_decode_loop ?bad 0 [] = Inl (UnknownTypeCode 0)"
    by simp
  from len(1) loop ninth 4 6 7 5 hint item 2 badh 8 9 cuti 10 loop' 11 12 13 R 3
  show ?thesis
    by (intro conjI) (simp_all only: simp_thms)
qed

section \<open>Two buffers that agree up to the sentinel\<close>

lemma take_drop_prefix:
  assumes "a + n \<le> m"
  shows "take n (drop a (take m xs)) = take n (drop a xs)"
proof -
  have "take n (drop a (take m xs)) = take n (take (m - a) (drop a xs))"
    by (simp add: drop_take)
  also have "\<dots> = take n (drop a xs)"
    using assms by (simp add: min_def)
  finally show ?thesis .
qed

lemma prefix_nth:
  assumes "take m xs = take m ys" "k < m"
  shows "xs ! k = ys ! k"
proof -
  have "xs ! k = take m xs ! k" using assms(2) by simp
  also have "\<dots> = take m ys ! k" by (simp add: assms(1))
  also have "\<dots> = ys ! k" using assms(2) by simp
  finally show ?thesis .
qed

lemma py_slice_payload:
  assumes "0 \<le> i" "0 \<le> n"
  shows "py_slice xs (i + 1) (i + 1 + n) = take (nat n) (drop (nat i + 1) xs)"
proof -
  have a: "nat (i + 1) = nat i + 1" using assms by (simp add: nat_add_distrib)
  have "nat (i + 1 + n) = nat (i + 1) + nat n" using assms by (simp add: nat_add_distrib)
  then have b: "nat (i + 1 + n) - nat (i + 1) = nat n" by simp
  have "py_slice xs (i + 1) (i + 1 + n)
      = take (nat (i + 1 + n) - nat (i + 1)) (drop (nat (i + 1)) xs)"
    using assms by (intro py_slice_nonneg) simp_all
  then have "py_slice xs (i + 1) (i + 1 + n) = take (nat n) (drop (nat (i + 1)) xs)"
    by (simp only: b)
  then show ?thesis by (simp only: a)
qed

lemma prefix_slice:
  assumes eq: "take m xs = take m ys" and i: "0 \<le> i" and n: "0 \<le> n"
    and le: "nat i + 1 + nat n \<le> m"
  shows "py_slice xs (i + 1) (i + 1 + n) = py_slice ys (i + 1) (i + 1 + n)"
proof -
  have "take (nat n) (drop (nat i + 1) xs) = take (nat n) (drop (nat i + 1) (take m xs))"
    using le by (simp add: take_drop_prefix)
  also have "\<dots> = take (nat n) (drop (nat i + 1) (take m ys))"
    by (simp add: eq)
  also have "\<dots> = take (nat n) (drop (nat i + 1) ys)"
    using le by (simp add: take_drop_prefix)
  finally show ?thesis
    by (simp only: py_slice_payload [OF i n])
qed

lemma decode_loop_agree:
  "length b1 = 256 \<Longrightarrow> length b2 = 256 \<Longrightarrow> 0 \<le> i \<Longrightarrow>
   decode_loop b1 i acc = Inr (p, items) \<Longrightarrow> p < 256 \<Longrightarrow>
   take (nat p + 1) b1 = take (nat p + 1) b2 \<Longrightarrow>
   decode_loop b2 i acc = Inr (p, items)"
proof (induction b1 i acc rule: decode_loop.induct)
  case (1 b1 i acc)
  note len1 = "1.prems"(1) and len2 = "1.prems"(2) and i0 = "1.prems"(3)
    and res = "1.prems"(4) and p = "1.prems"(5) and eq = "1.prems"(6)
  note unf1 = decode_loop_unfold [OF len1 i0, of acc]
  note unf2 = decode_loop_unfold [OF len2 i0, of acc]
  from decode_loop_exit [OF len1 i0 res] have ip: "i \<le> p" by simp
  with p have i: "i < 256" by simp
  have same: "b2 ! nat i = b1 ! nat i"
    using prefix_nth [OF eq, of "nat i"] ip i0 by simp
  show ?case
  proof (cases "b1 ! nat i = 0")
    case True
    from res True i have pi: "p = i" and it: "items = acc"
      by (auto simp: unf1)
    have "decode_loop b2 i acc = Inr (i, acc)"
      using True i by (simp add: unf2 same)
    then show ?thesis by (simp add: pi it)
  next
    case False
    have idx: "py_index b1 i = Inr (b1 ! nat i)"
      using i i0 len1 by (simp add: py_index_nonneg)
    from res False i obtain ty n v where hint: "decode_hint (b1 ! nat i) = Inr (ty, n)"
      and item: "decode_item ty n (py_slice b1 (i + 1) (i + 1 + n)) = Inr v"
      and rest: "decode_loop b1 (i + (n + 1)) (acc @ [v]) = Inr (p, items)"
      by (auto simp: unf1 split: sum.splits)
    have n: "0 \<le> n" using hint decode_hint_len by blast
    then have i0': "0 \<le> i + (n + 1)" using i0 by simp
    from decode_loop_exit [OF len1 i0' rest] have "i + (n + 1) \<le> p" by simp
    then have "nat i + 1 + nat n \<le> nat p + 1" using i0 n by simp
    from prefix_slice [OF eq i0 n this]
    have sl: "py_slice b2 (i + 1) (i + 1 + n) = py_slice b1 (i + 1) (i + 1 + n)"
      by simp
    have "decode_loop b2 (i + (n + 1)) (acc @ [v]) = Inr (p, items)"
      by (rule "1.IH" [OF i idx False hint refl item len1 len2 i0' rest p eq])
    with False i hint item show ?thesis
      by (simp add: unf2 same sl)
  qed
qed

section \<open>Bytes after the sentinel\<close>

text \<open>
  Claim C8, as stated: two buffers of 256 bytes that are equal at every offset up to and
  including their first zero byte decode to the same values. This fails: the first zero
  byte of a record may lie inside a payload. The records of \<open>[42]\<close> and of \<open>[43]\<close> both begin
  with the bytes 72, 0; their first zero byte is at offset 1, before the byte that tells
  them apart.
\<close>

theorem first_zero_byte_counterexample:
  "length ([72, 0, 0, 0, 0, 0, 0, 0, 42] @ replicate 247 (0::int)) = 256 \<and>
   length ([72, 0, 0, 0, 0, 0, 0, 0, 43] @ replicate 247 (0::int)) = 256 \<and>
   ([72, 0, 0, 0, 0, 0, 0, 0, 42] @ replicate 247 (0::int)) ! 0 \<noteq> 0 \<and>
   ([72, 0, 0, 0, 0, 0, 0, 0, 42] @ replicate 247 (0::int)) ! 1 = 0 \<and>
   take 2 ([72, 0, 0, 0, 0, 0, 0, 0, 42] @ replicate 247 (0::int))
     = take 2 ([72, 0, 0, 0, 0, 0, 0, 0, 43] @ replicate 247 0) \<and>
   decode_record ([72, 0, 0, 0, 0, 0, 0, 0, 42] @ replicate 247 0) = Inr [PInt 42] \<and>
   decode_record ([72, 0, 0, 0, 0, 0, 0, 0, 43] @ replicate 247 0) = Inr [PInt 43]"
proof -
  have a: "list_all2 (\<lambda>v bs. encode_item v = Inr bs) [PInt 42] [[72, 0, 0, 0, 0, 0, 0, 0, 42]]"
    by (simp add: encode_item_int be_bytes_8)
  have b: "list_all2 (\<lambda>v bs. encode_item v = Inr bs) [PInt 43] [[72, 0, 0, 0, 0, 0, 0, 0, 43]]"
    by (simp add: encode_item_int be_bytes_8)
  have "decode_record ([72, 0, 0, 0, 0, 0, 0, 0, 42] @ replicate 247 0) = Inr [PInt 42]"
    using record_roundtrip(3) [OF _ a] by simp
  moreover have "decode_record ([72, 0, 0, 0, 0, 0, 0, 0, 43] @ replicate 247 0) = Inr [PInt 43]"
    using record_roundtrip(3) [OF _ b] by simp
  ultimately show ?thesis by simp
qed

lemma padding_leniency_module:
  "length b1 = 256 \<and> length b2 = 256 \<and> decode_loop b1 0 [] = Inr (p, items) \<and> p < 256 \<and>
   take (nat p + 1) b1 = take (nat p + 1) b2 \<longrightarrow>
     b1 ! nat p = 0 \<and> decode_loop b2 0 [] = Inr (p, items) \<and>
     decode_record b1 = Inr items \<and> decode_record b2 = Inr items"
proof (intro impI, elim conjE)
  assume len1: "length b1 = 256" and len2: "length b2 = 256"
    and res: "decode_loop b1 0 [] = Inr (p, items)" and p: "p < 256"
    and eq: "take (nat p + 1) b1 = take (nat p + 1) b2"
  have res2: "decode_loop b2 0 [] = Inr (p, items)"
    by (rule decode_loop_agree [OF len1 len2 _ res p eq]) simp
  have "b1 ! nat p = 0"
    using decode_loop_exit [OF len1 _ res] p by simp
  with res res2 len1 len2
  show "b1 ! nat p = 0 \<and> decode_loop b2 0 [] = Inr (p, items) \<and>
     decode_record b1 = Inr items \<and> decode_record b2 = Inr items"
    by (simp add: decode_record_def)
qed

text \<open>
  Claim C8, amended. The sentinel is the zero byte that the scan reads as a hint byte, not
  the first zero byte of the buffer. If the scan of a buffer of 256 bytes stops at a
  sentinel at offset \<open>p\<close>, and a second buffer of 256 bytes is equal to the first at every
  offset up to and including \<open>p\<close>, then \<open>decode_record\<close> returns the same values on both:
  the bytes after the sentinel are never read and never checked.
  The same holds of the methods of the class \<open>U8Encoder\<close> in \<^verbatim>\<open>u8_encode.py\<close>.
\<close>

theorem padding_leniency:
  "(length b1 = 256 \<and> length b2 = 256 \<and> decode_loop b1 0 [] = Inr (p, items) \<and> p < 256 \<and>
   take (nat p + 1) b1 = take (nat p + 1) b2 \<longrightarrow>
     b1 ! nat p = 0 \<and> decode_loop b2 0 [] = Inr (p, items) \<and>
     decode_record b1 = Inr items \<and> decode_record b2 = Inr items) \<and>
   (length b1 = 256 \<and> length b2 = 256 \<and> U8Encoder_decode_loop b1 0 [] = Inr (p, items) \<and> p < 256 \<and>
   take (nat p + 1) b1 = take (nat p + 1) b2 \<longrightarrow>
     b1 ! nat p = 0 \<and> U8Encoder_decode_loop b2 0 [] = Inr (p, items) \<and>
     U8Encoder_decode_record b1 = Inr items \<and> U8Encoder_decode_record b2 = Inr items)"
  unfolding U8Encoder_encode_hint_eq U8Encoder_decode_hint_eq U8Encoder_encode_item_eq
    U8Encoder_decode_item_eq U8Encoder_encode_record_eq U8Encoder_decode_record_eq
    U8Encoder_decode_loop_eq
  by (rule conjI [OF padding_leniency_module padding_leniency_module])

theorem padding_leniency_witness:
  "length ([72, 0, 0, 0, 0, 0, 0, 0, 42] @ replicate 247 (0::int)) = 256 \<and>
   length ([72, 0, 0, 0, 0, 0, 0, 0, 42, 0] @ replicate 246 (7::int)) = 256 \<and>
   decode_loop ([72, 0, 0, 0, 0, 0, 0, 0, 42] @ replicate 247 0) 0 [] = Inr (9, [PInt 42]) \<and>
   take (nat 9 + 1) ([72, 0, 0, 0, 0, 0, 0, 0, 42] @ replicate 247 (0::int))
     = take (nat 9 + 1) ([72, 0, 0, 0, 0, 0, 0, 0, 42, 0] @ replicate 246 7) \<and>
   decode_record ([72, 0, 0, 0, 0, 0, 0, 0, 42] @ replicate 247 0) = Inr [PInt 42] \<and>
   decode_record ([72, 0, 0, 0, 0, 0, 0, 0, 42, 0] @ replicate 246 7) = Inr [PInt 42]"
proof -
  let ?b1 = "[72, 0, 0, 0, 0, 0, 0, 0, 42] @ replicate 247 (0::int)"
  let ?b2 = "[72, 0, 0, 0, 0, 0, 0, 0, 42, 0] @ replicate 246 (7::int)"
  have a: "list_all2 (\<lambda>v bs. encode_item v = Inr bs) [PInt 42] [[72, 0, 0, 0, 0, 0, 0, 0, 42]]"
    by (simp add: encode_item_int be_bytes_8)
  have loop: "decode_loop ?b1 0 [] = Inr (9, [PInt 42])"
    using record_roundtrip(2) [OF _ a] by simp
  have len: "length ?b1 = 256" "length ?b2 = 256" by simp_all
  have eq: "take (nat 9 + 1) ?b1 = take (nat 9 + 1) ?b2"
    by (simp add: eval_nat_numeral)
  have hyp: "length ?b1 = 256 \<and> length ?b2 = 256 \<and> decode_loop ?b1 0 [] = Inr (9, [PInt 42])
      \<and> (9::int) < 256 \<and> take (nat 9 + 1) ?b1 = take (nat 9 + 1) ?b2"
    using len loop eq by (intro conjI) simp_all
  from padding_leniency [where ?b1.0 = ?b1 and ?b2.0 = ?b2 and p = 9 and items = "[PInt 42]", THEN conjunct1] hyp
  have "decode_record ?b1 = Inr [PInt 42]" "decode_record ?b2 = Inr [PInt 42]"
    by blast+
  with len loop eq show ?thesis
    by (intro conjI) (simp_all only: simp_thms)
qed

section \<open>Table-level helpers\<close>

lemma list_comp_cong: "(\<And>x. f x = g x) \<Longrightarrow> list_comp f xs = list_comp g xs"
  by (induction xs) (simp_all split: sum.splits)

lemma list_comp_Inr:
  "list_comp f xs = Inr ys \<longleftrightarrow> list_all2 (\<lambda>x y. f x = Inr y) xs ys"
proof
  show "list_comp f xs = Inr ys \<Longrightarrow> list_all2 (\<lambda>x y. f x = Inr y) xs ys"
    by (induction xs arbitrary: ys) (auto split: sum.splits)
  show "list_all2 (\<lambda>x y. f x = Inr y) xs ys \<Longrightarrow> list_comp f xs = Inr ys"
    by (induction rule: list_all2_induct) simp_all
qed

lemma list_comp_first_error:
  "list_all2 (\<lambda>x y. f x = Inr y) pre ys \<Longrightarrow> f bad = Inl e \<Longrightarrow>
     list_comp f (pre @ bad # post) = Inl e"
  by (induction rule: list_all2_induct) simp_all

lemma frame_width_Cons [simp]:
  "frame_width [] = 0" "frame_width (row # rows) = max (length row) (frame_width rows)"
  by (simp_all add: frame_width_def)

lemma frame_width_ge: "row \<in> set rows \<Longrightarrow> length row \<le> frame_width rows"
  by (induction rows) auto

lemma frame_width_attained:
  "rows \<noteq> [] \<Longrightarrow> \<exists>row \<in> set rows. length row = frame_width rows"
proof (induction rows)
  case Nil
  then show ?case by simp
next
  case (Cons row rows)
  show ?case
  proof (cases "rows = []")
    case True
    then show ?thesis by simp
  next
    case False
    with Cons.IH obtain r where "r \<in> set rows" "length r = frame_width rows" by blast
    then show ?thesis by (cases "length row \<le> frame_width rows") (auto simp: max_def)
  qed
qed

lemma pd_DataFrame_None [simp]:
  "pd_DataFrame data None = Inr \<lparr>nf_data = data, nf_columns = None\<rparr>"
  by (simp add: pd_DataFrame_def)

lemma pd_DataFrame_Some:
  "pd_DataFrame data (Some header) =
     (if data = [] \<or> length header = frame_width data
      then Inr \<lparr>nf_data = data, nf_columns = Some header\<rparr>
      else Inl (ColumnsMismatch (length header) (frame_width data)))"
  by (simp add: pd_DataFrame_def)

lemma encode_database_split:
  "encode_database df =
     (case encode_record (df_columns df) of
        Inl e \<Rightarrow> Inl e
      | Inr header_record \<Rightarrow>
          (case U8Encoder_encode_database df of
             Inl e \<Rightarrow> Inl e
           | Inr data_records \<Rightarrow> Inr (header_record # data_records)))"
proof -
  have "list_comp U8Encoder_encode_record (df_rows df) = list_comp encode_record (df_rows df)"
    by (rule list_comp_cong) (rule U8Encoder_encode_record_eq)
  then show ?thesis
    by (simp add: encode_database_def U8Encoder_encode_database_def split: sum.splits)
qed

lemma decode_database_split:
  "decode_database (h # rs) =
     (case decode_record h of
        Inl e \<Rightarrow> Inl e
      | Inr header \<Rightarrow>
          (case U8Encoder_decode_database rs of
             Inl e \<Rightarrow> Inl e
           | Inr f \<Rightarrow>
               if nf_data f = [] \<or> length header = frame_width (nf_data f)
               then Inr \<lparr>nf_data = nf_data f, nf_columns = Some header\<rparr>
               else Inl (ColumnsMismatch (length header) (frame_width (nf_data f)))))"
proof -
  have "list_comp U8Encoder_decode_record rs = list_comp decode_record rs"
    by (rule list_comp_cong) (rule U8Encoder_decode_record_eq)
  then show ?thesis
    by (simp add: decode_database_def U8Encoder_decode_database_def py_index_def
        pd_DataFrame_Some split: sum.splits)
qed

lemma U8Encoder_decode_database_eq:
  "U8Encoder_decode_database rs =
     (case list_comp decode_record rs of
        Inl e \<Rightarrow> Inl e
      | Inr data \<Rightarrow> Inr \<lparr>nf_data = data, nf_columns = None\<rparr>)"
proof -
  have "list_comp U8Encoder_decode_record rs = list_comp decode_record rs"
    by (rule list_comp_cong) (rule U8Encoder_decode_record_eq)
  then show ?thesis
    by (simp add: U8Encoder_decode_database_def split: sum.splits)
qed


section \<open>Two copies, one logic\<close>

text \<open>
  Claim C2, as stated: every operation of \<^verbatim>\<open>U8Encoder.py\<close> and the operation of the same
  name in \<^verbatim>\<open>u8_encode.py\<close> return the same result or fail the same way, the table-level
  operations among them. This fails at the table level: on a table with the column
  \<^verbatim>\<open>"id"\<close> and the row \<open>[7]\<close> the module's \<open>encode_database\<close> returns two records and the
  class's returns one; on these two records the module's \<open>decode_database\<close> returns one row
  under the header \<^verbatim>\<open>"id"\<close> and the class's returns two rows and no header.
\<close>

theorem copies_differ_counterexample:
  "encode_database \<lparr>df_columns = [PStr [105, 100]], df_rows = [[PInt 7]]\<rparr>
     = Inr [[194, 105, 100] @ replicate 253 0, [72, 0, 0, 0, 0, 0, 0, 0, 7] @ replicate 247 0] \<and>
   U8Encoder_encode_database \<lparr>df_columns = [PStr [105, 100]], df_rows = [[PInt 7]]\<rparr>
     = Inr [[72, 0, 0, 0, 0, 0, 0, 0, 7] @ replicate 247 0] \<and>
   decode_database
       [[194, 105, 100] @ replicate 253 0, [72, 0, 0, 0, 0, 0, 0, 0, 7] @ replicate 247 0]
     = Inr \<lparr>nf_data = [[PInt 7]], nf_columns = Some [PStr [105, 100]]\<rparr> \<and>
   U8Encoder_decode_database
       [[194, 105, 100] @ replicate 253 0, [72, 0, 0, 0, 0, 0, 0, 0, 7] @ replicate 247 0]
     = Inr \<lparr>nf_data = [[PStr [105, 100]], [PInt 7]], nf_columns = None\<rparr>"
  by code_simp

text \<open>
  Claim C2, amended. The hint, item and record operations of the two copies return the
  same result or fail the same way on every input. The table-level operations differ in
  three ways. The module's \<open>encode_database\<close> returns the encoded column names followed by
  exactly the records that the class's \<open>encode_database\<close> returns, and fails where either
  fails. The module's \<open>decode_database\<close> decodes record 0 as the header and the other
  records as the class's \<open>decode_database\<close> decodes them; it fails on a frame with no
  record, which the class's decodes to no row. And when all records decode, the module
  hands the header to \<^verbatim>\<open>pd.DataFrame\<close>, which raises its \<^verbatim>\<open>ValueError\<close> when there is a row
  and the number of header values is not the length of the longest row; the class gives
  no header and returns the rows.
\<close>

theorem copies_agree:
  "U8Encoder_encode_hint t l = encode_hint t l \<and>
   U8Encoder_decode_hint b = decode_hint b \<and>
   U8Encoder_encode_item v = encode_item v \<and>
   U8Encoder_decode_item ty n bs = decode_item ty n bs \<and>
   U8Encoder_encode_record vs = encode_record vs \<and>
   U8Encoder_decode_record buf = decode_record buf \<and>
   encode_database df =
     (case encode_record (df_columns df) of
        Inl e \<Rightarrow> Inl e
      | Inr header_record \<Rightarrow>
          (case U8Encoder_encode_database df of
             Inl e \<Rightarrow> Inl e
           | Inr data_records \<Rightarrow> Inr (header_record # data_records))) \<and>
   decode_database (h # rs) =
     (case decode_record h of
        Inl e \<Rightarrow> Inl e
      | Inr header \<Rightarrow>
          (case U8Encoder_decode_database rs of
             Inl e \<Rightarrow> Inl e
           | Inr f \<Rightarrow>
               if nf_data f = [] \<or> length header = frame_width (nf_data f)
               then Inr \<lparr>nf_data = nf_data f, nf_columns = Some header\<rparr>
               else Inl (ColumnsMismatch (length header) (frame_width (nf_data f))))) \<and>
   decode_database [] = Inl IndexError \<and>
   U8Encoder_decode_database [] = Inr \<lparr>nf_data = [], nf_columns = None\<rparr> \<and>
   U8Encoder_decode_database rs =
     (case list_comp decode_record rs of
        Inl e \<Rightarrow> Inl e
      | Inr data \<Rightarrow> Inr \<lparr>nf_data = data, nf_columns = None\<rparr>)"
proof (intro conjI)
  show "decode_database [] = Inl IndexError"
    by (simp add: decode_database_def py_index_def)
  show "U8Encoder_decode_database [] = Inr \<lparr>nf_data = [], nf_columns = None\<rparr>"
    by (simp add: U8Encoder_decode_database_def)
qed (rule U8Encoder_encode_hint_eq U8Encoder_decode_hint_eq U8Encoder_encode_item_eq
    U8Encoder_decode_item_eq U8Encoder_encode_record_eq U8Encoder_decode_record_eq
    encode_database_split decode_database_split U8Encoder_decode_database_eq)+

theorem copies_agree_witness:
  "U8Encoder_encode_hint ''str'' 2 = Inr 194 \<and>
   U8Encoder_decode_hint 194 = Inr (''str'', 2) \<and>
   U8Encoder_encode_item (PInt 7) = Inr [72, 0, 0, 0, 0, 0, 0, 0, 7] \<and>
   U8Encoder_decode_item ''int'' 8 [0, 0, 0, 0, 0, 0, 0, 7] = Inr (PInt 7) \<and>
   U8Encoder_encode_record [PInt 7] = Inr ([72, 0, 0, 0, 0, 0, 0, 0, 7] @ replicate 247 0) \<and>
   U8Encoder_decode_record ([72, 0, 0, 0, 0, 0, 0, 0, 7] @ replicate 247 0) = Inr [PInt 7] \<and>
   U8Encoder_decode_record [] = Inl (BadRecordLength 0) \<and>
   encode_database \<lparr>df_columns = [PStr [105, 100]], df_rows = [[PInt 7]]\<rparr>
     = Inr [[194, 105, 100] @ replicate 253 0, [72, 0, 0, 0, 0, 0, 0, 0, 7] @ replicate 247 0] \<and>
   decode_database
       [[194, 105, 100] @ replicate 253 0, [72, 0, 0, 0, 0, 0, 0, 0, 7] @ replicate 247 0]
     = Inr \<lparr>nf_data = [[PInt 7]], nf_columns = Some [PStr [105, 100]]\<rparr> \<and>
   U8Encoder_decode_database
       [[72, 0, 0, 0, 0, 0, 0, 0, 1, 72, 0, 0, 0, 0, 0, 0, 0, 2] @ replicate 238 0]
     = Inr \<lparr>nf_data = [[PInt 1, PInt 2]], nf_columns = None\<rparr> \<and>
   decode_database
       [[193, 97] @ replicate 254 0,
        [72, 0, 0, 0, 0, 0, 0, 0, 1, 72, 0, 0, 0, 0, 0, 0, 0, 2] @ replicate 238 0]
     = Inl (ColumnsMismatch 1 2)"
proof -
  have m: "encode_hint ''str'' 2 = Inr 194" "decode_hint 194 = Inr (''str'', 2)"
    "encode_item (PInt 7) = Inr [72, 0, 0, 0, 0, 0, 0, 0, 7]"
    "decode_item ''int'' 8 [0, 0, 0, 0, 0, 0, 0, 7] = Inr (PInt 7)"
    "encode_record [PInt 7] = Inr ([72, 0, 0, 0, 0, 0, 0, 0, 7] @ replicate 247 0)"
    "decode_record ([72, 0, 0, 0, 0, 0, 0, 0, 7] @ replicate 247 0) = Inr [PInt 7]"
    "decode_record [] = Inl (BadRecordLength 0)"
    "encode_record [PStr [105, 100]] = Inr ([194, 105, 100] @ replicate 253 0)"
    "decode_record ([194, 105, 100] @ replicate 253 0) = Inr [PStr [105, 100]]"
    "decode_record ([193, 97] @ replicate 254 0) = Inr [PStr [97]]"
    "list_comp decode_record
       [[72, 0, 0, 0, 0, 0, 0, 0, 1, 72, 0, 0, 0, 0, 0, 0, 0, 2] @ replicate 238 0]
     = Inr [[PInt 1, PInt 2]]"
    by code_simp+
  have c: "U8Encoder_encode_database \<lparr>df_columns = [PStr [105, 100]], df_rows = [[PInt 7]]\<rparr>
      = Inr [[72, 0, 0, 0, 0, 0, 0, 0, 7] @ replicate 247 0]"
    "U8Encoder_decode_database [[72, 0, 0, 0, 0, 0, 0, 0, 7] @ replicate 247 0]
      = Inr \<lparr>nf_data = [[PInt 7]], nf_columns = None\<rparr>"
    by code_simp+
  note T = copies_agree [where t = "''str''" and l = 2 and b = 194 and v = "PInt 7"
      and ty = "''int''" and n = 8 and bs = "[0, 0, 0, 0, 0, 0, 0, 7]" and vs = "[PInt 7]"
      and buf = "[72, 0, 0, 0, 0, 0, 0, 0, 7] @ replicate 247 0"
      and df = "\<lparr>df_columns = [PStr [105, 100]], df_rows = [[PInt 7]]\<rparr>"
      and h = "[194, 105, 100] @ replicate 253 0"
      and rs = "[[72, 0, 0, 0, 0, 0, 0, 0, 7] @ replicate 247 0]"]
  have e: "U8Encoder_decode_record [] = Inl (BadRecordLength 0)"
    using copies_agree [where buf = "[]"] m(7) by simp
  note R = copies_agree [where t = "''str''" and l = 2 and b = 194 and v = "PInt 7"
      and ty = "''int''" and n = 8 and bs = "[0, 0, 0, 0, 0, 0, 0, 7]" and vs = "[PInt 7]"
      and buf = "[72, 0, 0, 0, 0, 0, 0, 0, 7] @ replicate 247 0"
      and df = "\<lparr>df_columns = [PStr [105, 100]], df_rows = [[PInt 7]]\<rparr>"
      and h = "[193, 97] @ replicate 254 0"
      and rs = "[[72, 0, 0, 0, 0, 0, 0, 0, 1, 72, 0, 0, 0, 0, 0, 0, 0, 2] @ replicate 238 0]"]
  have r1raw: "U8Encoder_decode_database
       [[72, 0, 0, 0, 0, 0, 0, 0, 1, 72, 0, 0, 0, 0, 0, 0, 0, 2] @ replicate 238 0]
     = (case list_comp decode_record
          [[72, 0, 0, 0, 0, 0, 0, 0, 1, 72, 0, 0, 0, 0, 0, 0, 0, 2] @ replicate 238 0] of
        Inl e \<Rightarrow> Inl e
      | Inr data \<Rightarrow> Inr \<lparr>nf_data = data, nf_columns = None\<rparr>)"
    using R by (elim conjE)
  have r1: "U8Encoder_decode_database
       [[72, 0, 0, 0, 0, 0, 0, 0, 1, 72, 0, 0, 0, 0, 0, 0, 0, 2] @ replicate 238 0]
     = Inr \<lparr>nf_data = [[PInt 1, PInt 2]], nf_columns = None\<rparr>"
    unfolding r1raw m(11) sum.case by (rule refl)
  have r2raw: "decode_database
       [[193, 97] @ replicate 254 0,
        [72, 0, 0, 0, 0, 0, 0, 0, 1, 72, 0, 0, 0, 0, 0, 0, 0, 2] @ replicate 238 0]
     = (case decode_record ([193, 97] @ replicate 254 0) of
        Inl e \<Rightarrow> Inl e
      | Inr header \<Rightarrow>
          (case U8Encoder_decode_database
              [[72, 0, 0, 0, 0, 0, 0, 0, 1, 72, 0, 0, 0, 0, 0, 0, 0, 2] @ replicate 238 0] of
             Inl e \<Rightarrow> Inl e
           | Inr f \<Rightarrow>
               if nf_data f = [] \<or> length header = frame_width (nf_data f)
               then Inr \<lparr>nf_data = nf_data f, nf_columns = Some header\<rparr>
               else Inl (ColumnsMismatch (length header) (frame_width (nf_data f)))))"
    using R by (elim conjE)
  have r2: "decode_database
       [[193, 97] @ replicate 254 0,
        [72, 0, 0, 0, 0, 0, 0, 0, 1, 72, 0, 0, 0, 0, 0, 0, 0, 2] @ replicate 238 0]
     = Inl (ColumnsMismatch 1 2)"
    unfolding r2raw m(10) r1 sum.case new_frame.simps by simp
  have t: "U8Encoder_encode_hint ''str'' 2 = Inr 194 \<and>
      U8Encoder_decode_hint 194 = Inr (''str'', 2) \<and>
      U8Encoder_encode_item (PInt 7) = Inr [72, 0, 0, 0, 0, 0, 0, 0, 7] \<and>
      U8Encoder_decode_item ''int'' 8 [0, 0, 0, 0, 0, 0, 0, 7] = Inr (PInt 7) \<and>
      U8Encoder_encode_record [PInt 7] = Inr ([72, 0, 0, 0, 0, 0, 0, 0, 7] @ replicate 247 0) \<and>
      U8Encoder_decode_record ([72, 0, 0, 0, 0, 0, 0, 0, 7] @ replicate 247 0) = Inr [PInt 7] \<and>
      encode_database \<lparr>df_columns = [PStr [105, 100]], df_rows = [[PInt 7]]\<rparr>
        = Inr [[194, 105, 100] @ replicate 253 0,
               [72, 0, 0, 0, 0, 0, 0, 0, 7] @ replicate 247 0]"
    using T by (simp only: m c sum.case dataframe.simps simp_thms)
  have d: "decode_database
       [[194, 105, 100] @ replicate 253 0, [72, 0, 0, 0, 0, 0, 0, 0, 7] @ replicate 247 0]
     = Inr \<lparr>nf_data = [[PInt 7]], nf_columns = Some [PStr [105, 100]]\<rparr>"
  proof -
    have "decode_database
        [[194, 105, 100] @ replicate 253 0, [72, 0, 0, 0, 0, 0, 0, 0, 7] @ replicate 247 0]
      = (case decode_record ([194, 105, 100] @ replicate 253 0) of
        Inl e \<Rightarrow> Inl e
      | Inr header \<Rightarrow>
          (case U8Encoder_decode_database [[72, 0, 0, 0, 0, 0, 0, 0, 7] @ replicate 247 0] of
             Inl e \<Rightarrow> Inl e
           | Inr f \<Rightarrow>
               if nf_data f = [] \<or> length header = frame_width (nf_data f)
               then Inr \<lparr>nf_data = nf_data f, nf_columns = Some header\<rparr>
               else Inl (ColumnsMismatch (length header) (frame_width (nf_data f)))))"
      using T by (elim conjE)
    then show ?thesis
      unfolding m(9) c(2) sum.case new_frame.simps by simp
  qed
  from t e d r1 r2 show ?thesis
    by (intro conjI) (simp_all only: simp_thms)
qed


lemma encode_database_Inr:
  "encode_database df = Inr recs \<longleftrightarrow>
     (\<exists>header_record data_records. recs = header_record # data_records \<and>
        encode_record (df_columns df) = Inr header_record \<and>
        list_all2 (\<lambda>row r. encode_record row = Inr r) (df_rows df) data_records)"
proof
  assume "encode_database df = Inr recs"
  then obtain hr dr where "encode_record (df_columns df) = Inr hr"
    "list_comp encode_record (df_rows df) = Inr dr" "recs = hr # dr"
    by (auto simp: encode_database_def split: sum.splits)
  then have "recs = hr # dr \<and> encode_record (df_columns df) = Inr hr \<and>
      list_all2 (\<lambda>row r. encode_record row = Inr r) (df_rows df) dr"
    by (simp add: list_comp_Inr)
  then show "\<exists>header_record data_records. recs = header_record # data_records \<and>
      encode_record (df_columns df) = Inr header_record \<and>
      list_all2 (\<lambda>row r. encode_record row = Inr r) (df_rows df) data_records"
    by blast
next
  assume "\<exists>header_record data_records. recs = header_record # data_records \<and>
      encode_record (df_columns df) = Inr header_record \<and>
      list_all2 (\<lambda>row r. encode_record row = Inr r) (df_rows df) data_records"
  then obtain hr dr where "recs = hr # dr" "encode_record (df_columns df) = Inr hr"
    "list_comp encode_record (df_rows df) = Inr dr"
    by (auto simp: list_comp_Inr)
  then show "encode_database df = Inr recs"
    by (simp add: encode_database_def)
qed

lemma decode_database_decoded:
  assumes "decode_record h = Inr header" "list_all2 (\<lambda>r row. decode_record r = Inr row) rs data"
  shows "decode_database (h # rs) = pd_DataFrame data (Some header)"
proof -
  have "list_comp decode_record rs = Inr data"
    using assms(2) by (simp add: list_comp_Inr)
  then show ?thesis
    by (simp add: decode_database_def py_index_def assms(1))
qed

lemma decode_database_Inr:
  "decode_database (h # rs) = Inr f \<longleftrightarrow>
     (\<exists>header data. f = \<lparr>nf_data = data, nf_columns = Some header\<rparr> \<and>
        decode_record h = Inr header \<and>
        list_all2 (\<lambda>r row. decode_record r = Inr row) rs data \<and>
        (data = [] \<or> length header = frame_width data))"
proof
  assume r: "decode_database (h # rs) = Inr f"
  then obtain header data where h: "decode_record h = Inr header"
    and d: "list_comp decode_record rs = Inr data"
    by (auto simp: decode_database_def py_index_def split: sum.splits)
  from d have d': "list_all2 (\<lambda>r row. decode_record r = Inr row) rs data"
    by (simp add: list_comp_Inr)
  from r have "pd_DataFrame data (Some header) = Inr f"
    by (simp add: decode_database_decoded [OF h d'])
  then have "f = \<lparr>nf_data = data, nf_columns = Some header\<rparr> \<and>
      (data = [] \<or> length header = frame_width data)"
    by (auto simp: pd_DataFrame_Some split: if_splits)
  with h d' show "\<exists>header data. f = \<lparr>nf_data = data, nf_columns = Some header\<rparr> \<and>
      decode_record h = Inr header \<and> list_all2 (\<lambda>r row. decode_record r = Inr row) rs data \<and>
      (data = [] \<or> length header = frame_width data)"
    by blast
next
  assume "\<exists>header data. f = \<lparr>nf_data = data, nf_columns = Some header\<rparr> \<and>
      decode_record h = Inr header \<and> list_all2 (\<lambda>r row. decode_record r = Inr row) rs data \<and>
      (data = [] \<or> length header = frame_width data)"
  then obtain header data where f: "f = \<lparr>nf_data = data, nf_columns = Some header\<rparr>"
    and h: "decode_record h = Inr header"
    and d: "list_all2 (\<lambda>r row. decode_record r = Inr row) rs data"
    and w: "data = [] \<or> length header = frame_width data"
    by blast
  show "decode_database (h # rs) = Inr f"
    using w by (simp add: decode_database_decoded [OF h d] pd_DataFrame_Some f)
qed

lemma decode_database_mismatch:
  assumes "decode_record h = Inr header" "list_all2 (\<lambda>r row. decode_record r = Inr row) rs data"
    and "data \<noteq> []" "length header \<noteq> frame_width data"
  shows "decode_database (h # rs) = Inl (ColumnsMismatch (length header) (frame_width data))"
  using assms(3,4) by (simp add: decode_database_decoded [OF assms(1,2)] pd_DataFrame_Some)

lemma decode_database_raises:
  shows "decode_record h = Inl e \<Longrightarrow> decode_database (h # rs) = Inl e"
    and "decode_record h = Inr header \<Longrightarrow>
      list_all2 (\<lambda>r row. decode_record r = Inr row) pre data \<Longrightarrow> decode_record bad = Inl e \<Longrightarrow>
      decode_database (h # pre @ bad # post) = Inl e"
proof -
  show "decode_record h = Inl e \<Longrightarrow> decode_database (h # rs) = Inl e"
    by (simp add: decode_database_def py_index_def)
  assume h: "decode_record h = Inr header"
    and p: "list_all2 (\<lambda>r row. decode_record r = Inr row) pre data"
    and b: "decode_record bad = Inl e"
  have "list_comp decode_record (pre @ bad # post) = Inl e"
    using p b by (rule list_comp_first_error)
  then show "decode_database (h # pre @ bad # post) = Inl e"
    by (simp add: decode_database_def py_index_def h)
qed

lemma U8Encoder_decode_database_Inr:
  "U8Encoder_decode_database rs = Inr f \<longleftrightarrow>
     (\<exists>data. f = \<lparr>nf_data = data, nf_columns = None\<rparr> \<and>
        list_all2 (\<lambda>r row. U8Encoder_decode_record r = Inr row) rs data)"
proof
  assume "U8Encoder_decode_database rs = Inr f"
  then obtain data where "list_comp U8Encoder_decode_record rs = Inr data"
    "f = \<lparr>nf_data = data, nf_columns = None\<rparr>"
    by (auto simp: U8Encoder_decode_database_def split: sum.splits)
  then have "f = \<lparr>nf_data = data, nf_columns = None\<rparr> \<and>
      list_all2 (\<lambda>r row. U8Encoder_decode_record r = Inr row) rs data"
    by (simp add: list_comp_Inr)
  then show "\<exists>data. f = \<lparr>nf_data = data, nf_columns = None\<rparr> \<and>
      list_all2 (\<lambda>r row. U8Encoder_decode_record r = Inr row) rs data"
    by blast
next
  assume "\<exists>data. f = \<lparr>nf_data = data, nf_columns = None\<rparr> \<and>
      list_all2 (\<lambda>r row. U8Encoder_decode_record r = Inr row) rs data"
  then obtain data where "f = \<lparr>nf_data = data, nf_columns = None\<rparr>"
    "list_comp U8Encoder_decode_record rs = Inr data"
    by (auto simp: list_comp_Inr)
  then show "U8Encoder_decode_database rs = Inr f"
    by (simp add: U8Encoder_decode_database_def)
qed

section \<open>Tables\<close>

text \<open>
  Claim C3, as stated: table-level encode returns the encoded column names as the first
  record, then the encoded rows in order, and table-level decode reads record 0 as the
  column names and the other records as the rows. The class \<open>U8Encoder\<close> of
  \<^verbatim>\<open>u8_encode.py\<close> has no header: its \<open>encode_database\<close> of a table with the column \<^verbatim>\<open>"a"\<close>
  and the rows \<open>[1]\<close>, \<open>[2]\<close> returns two records, the first one the record of the row \<open>[1]\<close> and
  not of the column names, and its \<open>decode_database\<close> reads record 0 as a row.
\<close>

theorem class_table_no_header_counterexample:
  "encode_record [PStr [97]] = Inr ([193, 97] @ replicate 254 0) \<and>
   encode_record [PInt 1] = Inr ([72, 0, 0, 0, 0, 0, 0, 0, 1] @ replicate 247 0) \<and>
   encode_record [PInt 2] = Inr ([72, 0, 0, 0, 0, 0, 0, 0, 2] @ replicate 247 0) \<and>
   U8Encoder_encode_database \<lparr>df_columns = [PStr [97]], df_rows = [[PInt 1], [PInt 2]]\<rparr>
     = Inr [[72, 0, 0, 0, 0, 0, 0, 0, 1] @ replicate 247 0,
            [72, 0, 0, 0, 0, 0, 0, 0, 2] @ replicate 247 0] \<and>
   U8Encoder_decode_database
       [[193, 97] @ replicate 254 0, [72, 0, 0, 0, 0, 0, 0, 0, 1] @ replicate 247 0]
     = Inr \<lparr>nf_data = [[PStr [97]], [PInt 1]], nf_columns = None\<rparr>"
  by code_simp

text \<open>
  Claim C3, amended. For the module-level functions of \<^verbatim>\<open>U8Encoder.py\<close>: \<open>encode_database\<close>
  returns a list of records exactly when the column names and every row encode, and the
  list is then the record of the column names followed by the records of the rows in
  their order. \<open>decode_database\<close> reads record 0 as the column names and the other records
  as the rows: it raises what \<open>decode_record\<close> raises on the first record that does not
  decode, record 0 first, and \<^verbatim>\<open>IndexError\<close> when there is no record; when all records
  decode it hands the rows and the column names to \<^verbatim>\<open>pd.DataFrame\<close>, which returns the
  frame when there is no row or the number of column names is the length of the longest
  row, and raises its \<^verbatim>\<open>ValueError\<close> otherwise. The class \<open>U8Encoder\<close> of \<^verbatim>\<open>u8_encode.py\<close>
  encodes the rows only, and decodes every record as a row, with no header, exactly when
  every record decodes.
\<close>

theorem table_layout:
  "(encode_database df = Inr recs \<longleftrightarrow>
      (\<exists>header_record data_records. recs = header_record # data_records \<and>
         encode_record (df_columns df) = Inr header_record \<and>
         list_all2 (\<lambda>row r. encode_record row = Inr r) (df_rows df) data_records)) \<and>
   (decode_database (h # rs) = Inr f \<longleftrightarrow>
      (\<exists>header data. f = \<lparr>nf_data = data, nf_columns = Some header\<rparr> \<and>
         decode_record h = Inr header \<and>
         list_all2 (\<lambda>r row. decode_record r = Inr row) rs data \<and>
         (data = [] \<or> length header = frame_width data))) \<and>
   (decode_record h = Inr hdr \<and> list_all2 (\<lambda>r row. decode_record r = Inr row) rs rows \<and>
    rows \<noteq> [] \<and> length hdr \<noteq> frame_width rows \<longrightarrow>
      decode_database (h # rs) = Inl (ColumnsMismatch (length hdr) (frame_width rows))) \<and>
   (decode_record h = Inl e \<longrightarrow> decode_database (h # rs) = Inl e) \<and>
   (decode_record h = Inr hdr \<and> list_all2 (\<lambda>r row. decode_record r = Inr row) pre rows \<and>
    decode_record bad = Inl e \<longrightarrow>
      decode_database (h # pre @ bad # post) = Inl e) \<and>
   decode_database [] = Inl IndexError \<and>
   (rows \<noteq> [] \<longrightarrow> (\<exists>row \<in> set rows. length row = frame_width rows)) \<and>
   (\<forall>row \<in> set rows. length row \<le> frame_width rows) \<and>
   (U8Encoder_encode_database df = Inr recs \<longleftrightarrow>
      list_all2 (\<lambda>row r. U8Encoder_encode_record row = Inr r) (df_rows df) recs) \<and>
   (U8Encoder_decode_database rs = Inr f \<longleftrightarrow>
      (\<exists>data. f = \<lparr>nf_data = data, nf_columns = None\<rparr> \<and>
         list_all2 (\<lambda>r row. U8Encoder_decode_record r = Inr row) rs data))"
proof (intro conjI impI ballI)
  show "U8Encoder_encode_database df = Inr recs \<longleftrightarrow>
      list_all2 (\<lambda>row r. U8Encoder_encode_record row = Inr r) (df_rows df) recs"
    by (simp add: U8Encoder_encode_database_def list_comp_Inr)
  show "decode_database [] = Inl IndexError"
    by (simp add: decode_database_def py_index_def)
  show "decode_database (h # rs) = Inl (ColumnsMismatch (length hdr) (frame_width rows))"
    if "decode_record h = Inr hdr \<and> list_all2 (\<lambda>r row. decode_record r = Inr row) rs rows \<and>
      rows \<noteq> [] \<and> length hdr \<noteq> frame_width rows"
    using that decode_database_mismatch by blast
  show "decode_database (h # rs) = Inl e" if "decode_record h = Inl e"
    using that by (rule decode_database_raises(1))
  show "decode_database (h # pre @ bad # post) = Inl e"
    if "decode_record h = Inr hdr \<and> list_all2 (\<lambda>r row. decode_record r = Inr row) pre rows \<and>
      decode_record bad = Inl e"
    using that decode_database_raises(2) by blast
  show "\<exists>row \<in> set rows. length row = frame_width rows" if "rows \<noteq> []"
    using that by (rule frame_width_attained)
  show "length row \<le> frame_width rows" if "row \<in> set rows" for row
    using that by (rule frame_width_ge)
qed (rule encode_database_Inr decode_database_Inr U8Encoder_decode_database_Inr)+


theorem table_layout_witness:
  "encode_database \<lparr>df_columns = [PStr [97]], df_rows = [[PInt 1], [PInt 2]]\<rparr>
     = Inr [[193, 97] @ replicate 254 0, [72, 0, 0, 0, 0, 0, 0, 0, 1] @ replicate 247 0,
            [72, 0, 0, 0, 0, 0, 0, 0, 2] @ replicate 247 0] \<and>
   decode_database
       [[193, 97] @ replicate 254 0, [72, 0, 0, 0, 0, 0, 0, 0, 1] @ replicate 247 0,
        [72, 0, 0, 0, 0, 0, 0, 0, 2] @ replicate 247 0]
     = Inr \<lparr>nf_data = [[PInt 1], [PInt 2]], nf_columns = Some [PStr [97]]\<rparr> \<and>
   decode_database
       [[193, 97] @ replicate 254 0,
        [72, 0, 0, 0, 0, 0, 0, 0, 1, 72, 0, 0, 0, 0, 0, 0, 0, 2] @ replicate 238 0]
     = Inl (ColumnsMismatch 1 2) \<and>
   decode_database [[], [72, 0, 0, 0, 0, 0, 0, 0, 1] @ replicate 247 0]
     = Inl (BadRecordLength 0) \<and>
   decode_database
       (([193, 97] @ replicate 254 0) #
        [[72, 0, 0, 0, 0, 0, 0, 0, 1] @ replicate 247 0] @
        ([193, 255] @ replicate 254 0) # [[72, 0, 0, 0, 0, 0, 0, 0, 2] @ replicate 247 0])
     = Inl UnicodeDecodeError \<and>
   frame_width [[PInt 1], [PInt 1, PInt 2]] = 2 \<and>
   U8Encoder_encode_database \<lparr>df_columns = [PStr [97]], df_rows = [[PInt 1], [PInt 2]]\<rparr>
     = Inr [[72, 0, 0, 0, 0, 0, 0, 0, 1] @ replicate 247 0,
            [72, 0, 0, 0, 0, 0, 0, 0, 2] @ replicate 247 0] \<and>
   U8Encoder_decode_database
       [[193, 97] @ replicate 254 0, [72, 0, 0, 0, 0, 0, 0, 0, 1] @ replicate 247 0]
     = Inr \<lparr>nf_data = [[PStr [97]], [PInt 1]], nf_columns = None\<rparr>"
proof -
  let ?h = "[193, 97] @ replicate 254 (0::int)"
  let ?r1 = "[72, 0, 0, 0, 0, 0, 0, 0, 1] @ replicate 247 (0::int)"
  let ?r2 = "[72, 0, 0, 0, 0, 0, 0, 0, 2] @ replicate 247 (0::int)"
  let ?r12 = "[72, 0, 0, 0, 0, 0, 0, 0, 1, 72, 0, 0, 0, 0, 0, 0, 0, 2] @ replicate 238 (0::int)"
  let ?bad = "[193, 255] @ replicate 254 (0::int)"
  let ?df = "\<lparr>df_columns = [PStr [97]], df_rows = [[PInt 1], [PInt 2]]\<rparr>"
  let ?f = "\<lparr>nf_data = [[PInt 1], [PInt 2]], nf_columns = Some [PStr [97]]\<rparr>"
  let ?g = "\<lparr>nf_data = [[PStr [97]], [PInt 1]], nf_columns = None\<rparr>"
  have e: "encode_record [PStr [97]] = Inr ?h" "encode_record [PInt 1] = Inr ?r1"
    "encode_record [PInt 2] = Inr ?r2"
    by code_simp+
  have ce: "U8Encoder_encode_record [PInt 1] = Inr ?r1" "U8Encoder_encode_record [PInt 2] = Inr ?r2"
    by code_simp+
  have d: "decode_record ?h = Inr [PStr [97]]" "decode_record ?r1 = Inr [PInt 1]"
    "decode_record ?r2 = Inr [PInt 2]" "decode_record ?r12 = Inr [PInt 1, PInt 2]"
    "decode_record [] = Inl (BadRecordLength 0)" "decode_record ?bad = Inl UnicodeDecodeError"
    by code_simp+
  have cd: "U8Encoder_decode_record ?h = Inr [PStr [97]]" "U8Encoder_decode_record ?r1 = Inr [PInt 1]"
    by code_simp+
  have w: "frame_width [[PInt 1], [PInt 2]] = 1" "frame_width [[PInt 1, PInt 2]] = 2"
    by code_simp+
  note T = table_layout [where df = ?df and recs = "[?h, ?r1, ?r2]" and h = ?h
      and rs = "[?r1, ?r2]" and f = ?f]
  have "[?h, ?r1, ?r2] = ?h # [?r1, ?r2] \<and> encode_record (df_columns ?df) = Inr ?h \<and>
      list_all2 (\<lambda>row r. encode_record row = Inr r) (df_rows ?df) [?r1, ?r2]"
    by (simp only: e dataframe.simps list_all2_Cons list.rel_inject list_all2_Nil simp_thms)
  then have "\<exists>header_record data_records. [?h, ?r1, ?r2] = header_record # data_records \<and>
      encode_record (df_columns ?df) = Inr header_record \<and>
      list_all2 (\<lambda>row r. encode_record row = Inr r) (df_rows ?df) data_records"
    by (intro exI)
  then have 1: "encode_database ?df = Inr [?h, ?r1, ?r2]"
    by (rule iffD2 [OF conjunct1 [OF T]])
  have "?f = \<lparr>nf_data = [[PInt 1], [PInt 2]], nf_columns = Some [PStr [97]]\<rparr> \<and>
      decode_record ?h = Inr [PStr [97]] \<and>
      list_all2 (\<lambda>r row. decode_record r = Inr row) [?r1, ?r2] [[PInt 1], [PInt 2]] \<and>
      ([[PInt 1], [PInt 2]] = [] \<or> length [PStr [97]] = frame_width [[PInt 1], [PInt 2]])"
    by (simp only: d w list_all2_Cons list_all2_Nil list.size simp_thms) simp
  then have "\<exists>header data. ?f = \<lparr>nf_data = data, nf_columns = Some header\<rparr> \<and>
      decode_record ?h = Inr header \<and>
      list_all2 (\<lambda>r row. decode_record r = Inr row) [?r1, ?r2] data \<and>
      (data = [] \<or> length header = frame_width data)"
    by (intro exI)
  then have 2: "decode_database [?h, ?r1, ?r2] = Inr ?f"
    by (rule iffD2 [OF conjunct1 [OF conjunct2 [OF T]]])
  note M = table_layout [where h = ?h and rs = "[?r12]" and hdr = "[PStr [97]]"
      and rows = "[[PInt 1, PInt 2]]"]
  have "decode_record ?h = Inr [PStr [97]] \<and>
      list_all2 (\<lambda>r row. decode_record r = Inr row) [?r12] [[PInt 1, PInt 2]] \<and>
      [[PInt 1, PInt 2]] \<noteq> [] \<and> length [PStr [97]] \<noteq> frame_width [[PInt 1, PInt 2]]"
    by (simp only: d w list_all2_Cons list_all2_Nil simp_thms) simp
  then have "decode_database [?h, ?r12]
      = Inl (ColumnsMismatch (length [PStr [97]]) (frame_width [[PInt 1, PInt 2]]))"
    by (rule mp [OF conjunct1 [OF conjunct2 [OF conjunct2 [OF M]]]])
  then have 3: "decode_database [?h, ?r12] = Inl (ColumnsMismatch 1 2)"
    by (simp only: w) simp
  note E = table_layout [where h = "[]" and rs = "[?r1]" and e = "BadRecordLength 0"]
  have 4: "decode_database [[], ?r1] = Inl (BadRecordLength 0)"
    using d(5) by (rule mp [OF conjunct1 [OF conjunct2 [OF conjunct2 [OF conjunct2 [OF E]]]]])
  note P = table_layout [where h = ?h and hdr = "[PStr [97]]" and pre = "[?r1]"
      and rows = "[[PInt 1]]" and bad = ?bad and e = UnicodeDecodeError and post = "[?r2]"]
  have "decode_record ?h = Inr [PStr [97]] \<and>
      list_all2 (\<lambda>r row. decode_record r = Inr row) [?r1] [[PInt 1]] \<and>
      decode_record ?bad = Inl UnicodeDecodeError"
    by (simp only: d list_all2_Cons list_all2_Nil simp_thms)
  then have 5: "decode_database ((?h) # [?r1] @ (?bad) # [?r2]) = Inl UnicodeDecodeError"
    by (rule mp [OF conjunct1 [OF conjunct2 [OF conjunct2 [OF conjunct2 [OF conjunct2 [OF P]]]]]])
  note W = table_layout [where rows = "[[PInt 1], [PInt 1, PInt 2]]"]
  have 6: "frame_width [[PInt 1], [PInt 1, PInt 2]] = 2"
    using W by auto
  note C = table_layout [where df = ?df and recs = "[?r1, ?r2]" and rs = "[?h, ?r1]" and f = ?g]
  have "list_all2 (\<lambda>row r. U8Encoder_encode_record row = Inr r) (df_rows ?df) [?r1, ?r2]"
    by (simp only: ce dataframe.simps list_all2_Cons list_all2_Nil simp_thms)
  then have 7: "U8Encoder_encode_database ?df = Inr [?r1, ?r2]"
    by (rule iffD2 [OF C [THEN conjunct2, THEN conjunct2, THEN conjunct2, THEN conjunct2, THEN conjunct2, THEN conjunct2, THEN conjunct2, THEN conjunct2, THEN conjunct1]])
  have "?g = \<lparr>nf_data = [[PStr [97]], [PInt 1]], nf_columns = None\<rparr> \<and>
      list_all2 (\<lambda>r row. U8Encoder_decode_record r = Inr row) [?h, ?r1] [[PStr [97]], [PInt 1]]"
    by (simp only: cd list_all2_Cons list_all2_Nil simp_thms)
  then have "\<exists>data. ?g = \<lparr>nf_data = data, nf_columns = None\<rparr> \<and>
      list_all2 (\<lambda>r row. U8Encoder_decode_record r = Inr row) [?h, ?r1] data"
    by (intro exI)
  then have 8: "U8Encoder_decode_database [?h, ?r1] = Inr ?g"
    by (rule iffD2 [OF C [THEN conjunct2, THEN conjunct2, THEN conjunct2, THEN conjunct2, THEN conjunct2, THEN conjunct2, THEN conjunct2, THEN conjunct2, THEN conjunct2]])
  from 1 2 3 4 5 6 7 8 show ?thesis by (intro conjI)
qed

end
